theory Spec2Isabelle
  imports Complex_Main
begin

section \<open>Numbers and randomness\<close>

text \<open>
  A model of the training orchestration of SolidBlock-RL: the replay buffer, the hybrid
  sampler, the exploration rate and the checkpoints of \<open>ai/train.js\<close>, and the grid
  environment of \<open>game/game.js\<close>.  Line numbers refer to
  \<open>src/SolidBlock/index.js\<close>, which holds these modules one after the other.

  JavaScript numbers are modelled as reals.  Where the code compares a computed double
  (the roulette wheel of the sampler) the rounding of each operation is a parameter of
  the model, with the rounding of IEEE 754 as its instance \<open>ieee\<close>; elsewhere rounding
  is not represented.  The division by a total priority of zero in the sampler and the
  remainder by a spawn interval of zero are written out by cases.  In a checkpoint a
  number may also be \<open>-0\<close>, an infinity or NaN.

  Every call of \<open>Math.random()\<close> reads the next entry of a tape \<open>rs\<close>; a function that
  draws returns the rest of the tape.  The platform promises \<open>0 \<le> r < 1\<close> for every
  draw, which is the predicate \<open>unitTape\<close>.
\<close>

type_synonym rnd = "nat \<Rightarrow> real"

definition unitTape :: "rnd \<Rightarrow> bool" where
  "unitTape rs = (\<forall>i. 0 \<le> rs i \<and> rs i < 1)"

definition skip :: "nat \<Rightarrow> rnd \<Rightarrow> rnd" where
  "skip n rs = (\<lambda>i. rs (i + n))"

section \<open>ai/train.js: transitions, replay buffer, exploration rate\<close>

record feature =
  grid :: "nat list list list"
  offset :: "real list"

record transition =
  state :: feature
  action :: nat
  reward :: real
  nextState :: feature
  isDone :: bool
  priority :: "real option"

definition REPLAY_BUFFER_SIZE :: nat where
  "REPLAY_BUFFER_SIZE = 10000"

definition BATCH_SIZE :: nat where
  "BATCH_SIZE = 32"

text \<open>
  The push of \<open>train\<close> (index.js 634-646): \<open>replayBuffer.push(t)\<close>, then
  \<open>splice(0, length - REPLAY_BUFFER_SIZE)\<close> when the length exceeds the capacity.
\<close>

definition pushTransition :: "transition list \<Rightarrow> transition \<Rightarrow> transition list" where
  "pushTransition replayBuffer t =
     (let b = replayBuffer @ [t]
      in if length b > REPLAY_BUFFER_SIZE then drop (length b - REPLAY_BUFFER_SIZE) b else b)"

text \<open>
  \<open>sampleEnhancedBatch\<close> (index.js 421-477).  An array read \<open>buffer[index]\<close> outside
  the array gives \<open>undefined\<close>, which is \<open>None\<close> here, so a batch is a list of
  options.
\<close>

definition jsIndex :: "'a list \<Rightarrow> int \<Rightarrow> 'a option" where
  "jsIndex xs i = (if 0 \<le> i \<and> i < int (length xs) then Some (xs ! nat i) else None)"

fun uniformLoop :: "nat \<Rightarrow> transition list \<Rightarrow> rnd \<Rightarrow> transition option list \<times> rnd" where
  "uniformLoop 0 buffer rs = ([], rs)"
| "uniformLoop (Suc n) buffer rs =
     (let index = \<lfloor>rs 0 * of_nat (length buffer)\<rfloor>
      in case uniformLoop n buffer (skip 1 rs) of
           (samples, rs') \<Rightarrow> (jsIndex buffer index # samples, rs'))"

text \<open>
  The roulette wheel compares a draw with a running sum of quotients, so the rounding of
  each operation decides which entry is taken, or whether any is.  The arithmetic of
  doubles is therefore a parameter of the sampler: \<open>rounded\<close> maps the exact result of
  one operation (\<open>+\<close>, \<open>*\<close>, \<open>/\<close>) to the double that the operation returns, and
  \<open>mathPow\<close> is \<open>Math.pow\<close>.  Overflow is not represented.
\<close>

record doubles =
  rounded :: "real \<Rightarrow> real"
  mathPow :: "real \<Rightarrow> real \<Rightarrow> real"

text \<open>
  The doubles of the platform, IEEE 754 binary64 with round-to-nearest, ties to even:
  \<open>binade\<close> finds the exponent \<open>e\<close> for which the magnitude divided by \<open>2 ^ e\<close> has
  53 bits before the binary point (not below the exponent of the subnormal numbers),
  and \<open>double\<close> rounds there.  Magnitudes beyond the largest double are outside the
  model.  \<open>Math.pow(x, 2)\<close> is taken to be the rounded product.
\<close>

definition roundHalfEven :: "real \<Rightarrow> int" where
  "roundHalfEven x =
     (let f = \<lfloor>x\<rfloor>; d = x - of_int f
      in if d < 1 / 2 then f else if 1 / 2 < d then f + 1 else if even f then f else f + 1)"

fun binade :: "nat \<Rightarrow> real \<Rightarrow> int \<Rightarrow> int" where
  "binade 0 m e = e"
| "binade (Suc fuel) m e =
     (if 2 ^ 53 \<le> m then binade fuel (m / 2) (e + 1)
      else if m < 2 ^ 52 then binade fuel (m * 2) (e - 1)
      else e)"

definition scaleBy :: "int \<Rightarrow> real \<Rightarrow> real" where
  "scaleBy e x = (if 0 \<le> e then x * 2 ^ nat e else x / 2 ^ nat (- e))"

definition double :: "real \<Rightarrow> real" where
  "double x =
     (if x = 0 then 0
      else let e = max (binade 2200 \<bar>x\<bar> 0) (- 1074)
           in sgn x * scaleBy e (of_int (roundHalfEven (scaleBy (- e) \<bar>x\<bar>))))"

definition ieee :: doubles where
  "ieee = \<lparr>rounded = double,
            mathPow = (\<lambda>x a. if a = 2 then double (x * x) else double (x powr a))\<rparr>"

definition effectivePriorities :: "doubles \<Rightarrow> transition list \<Rightarrow> real list" where
  "effectivePriorities ar buffer =
     map (\<lambda>i. let alpha = 2.0;
                  transition = buffer ! i;
                  originalPriority = (case priority transition of
                                        Some p \<Rightarrow> p
                                      | None \<Rightarrow> \<bar>reward transition\<bar>);
                  recencyWeight = rounded ar ((of_nat i + 1) / of_nat (length buffer));
                  effectivePriority = rounded ar (originalPriority * mathPow ar recencyWeight alpha)
              in effectivePriority)
       [0..<length buffer]"

text \<open>\<open>effectivePriorities.reduce((sum, p) => sum + p, 0)\<close>.\<close>

definition totalOf :: "doubles \<Rightarrow> real list \<Rightarrow> real" where
  "totalOf ar effs = foldl (\<lambda>sum p. rounded ar (sum + p)) 0 effs"

text \<open>
  The inner loop of the roulette wheel: \<open>cumulative\<close> grows by
  \<open>effectivePriorities[j] / totalPriority\<close> and the first \<open>j\<close> with
  \<open>random < cumulative\<close> is taken; no \<open>j\<close> may qualify.
\<close>

fun rouletteScan :: "doubles \<Rightarrow> real \<Rightarrow> real \<Rightarrow> real list \<Rightarrow> real \<Rightarrow> nat \<Rightarrow> nat option" where
  "rouletteScan ar random totalPriority [] cumulative j = None"
| "rouletteScan ar random totalPriority (p # ps) cumulative j =
     (let cumulative' = rounded ar (cumulative + rounded ar (p / totalPriority))
      in if random < cumulative' then Some j
         else rouletteScan ar random totalPriority ps cumulative' (j + 1))"

text \<open>
  With \<open>totalPriority = 0\<close> the quotients are IEEE values: \<open>+Infinity\<close> for a
  positive entry, \<open>-Infinity\<close> for a negative one and NaN for 0.  The comparison
  \<open>random < cumulative\<close> then holds at \<open>j = 0\<close> when the first entry is positive, and
  never otherwise (the sum is NaN or \<open>-Infinity\<close> from the first step on).
\<close>

definition roulettePick :: "doubles \<Rightarrow> real list \<Rightarrow> real \<Rightarrow> real \<Rightarrow> nat option" where
  "roulettePick ar effs totalPriority random =
     (if totalPriority = 0
      then (case effs of [] \<Rightarrow> None | p # ps \<Rightarrow> if p > 0 then Some 0 else None)
      else rouletteScan ar random totalPriority effs 0 0)"

fun prioritizedLoop ::
  "doubles \<Rightarrow> nat \<Rightarrow> transition list \<Rightarrow> real list \<Rightarrow> real \<Rightarrow> rnd
     \<Rightarrow> transition option list \<times> rnd" where
  "prioritizedLoop ar 0 buffer effs totalPriority rs = ([], rs)"
| "prioritizedLoop ar (Suc n) buffer effs totalPriority rs =
     (let random = rs 0
      in case prioritizedLoop ar n buffer effs totalPriority (skip 1 rs) of
           (samples, rs') \<Rightarrow>
             (case roulettePick ar effs totalPriority random of
                Some j \<Rightarrow> (jsIndex buffer (int j) # samples, rs')
              | None \<Rightarrow> (samples, rs')))"

definition sampleEnhancedBatch ::
  "doubles \<Rightarrow> transition list \<Rightarrow> nat \<Rightarrow> rnd \<Rightarrow> transition option list \<times> rnd" where
  "sampleEnhancedBatch ar buffer batchSize rs =
     (if length buffer < batchSize then (map Some buffer, rs)
      else
        (let halfBatch = batchSize div 2
         in case uniformLoop halfBatch buffer rs of
              (uniformSamples, rs1) \<Rightarrow>
                (let effs = effectivePriorities ar buffer;
                     totalPriority = totalOf ar effs
                 in case prioritizedLoop ar halfBatch buffer effs totalPriority rs1 of
                      (prioritizedSamples, rs2) \<Rightarrow> (uniformSamples @ prioritizedSamples, rs2))))"

definition epsilonDecay :: real where "epsilonDecay = 0.999"
definition epsilonMin :: real where "epsilonMin = 0.1"
definition epsilonBoost :: real where "epsilonBoost = 0.2"
definition explorationCycleLength :: int where "explorationCycleLength = 1200"
definition epsilonResetCycle :: real where "epsilonResetCycle = 0.2"

text \<open>
  The per-episode update of \<open>epsilon\<close> (index.js 754-766); \<open>episode\<close> is the counter
  after its increment.  Only the boost branch draws a random number.
\<close>

definition updateEpsilon :: "int \<Rightarrow> real \<Rightarrow> rnd \<Rightarrow> real \<times> rnd" where
  "updateEpsilon episode epsilon rs =
     (if episode mod explorationCycleLength = 0
      then (let boostAmount = epsilonMin + rs 0 * (epsilonResetCycle - epsilonMin)
            in (epsilon + boostAmount, skip 1 rs))
      else (let e = epsilon * epsilonDecay
            in (if e < epsilonMin then epsilonBoost else e, rs)))"

section \<open>ai/train.js: checkpoints\<close>

subsection \<open>JavaScript values and JSON texts\<close>

text \<open>
  \<open>saveTrainingState\<close> and \<open>loadTrainingState\<close> hand the state to \<open>JSON.stringify\<close>,
  \<open>JSON.parse\<close> and the \<open>fs\<close> module.  These are modelled after ECMA-262 (sections
  \<open>JSON.stringify\<close>, \<open>SerializeJSONProperty\<close>, \<open>JSON.parse\<close>) and the Node.js
  documentation of \<open>fs\<close>, for the values a training state is made of: \<open>undefined\<close>,
  \<open>null\<close>, booleans, numbers, strings, arrays and plain objects without \<open>toJSON\<close>.
  A number is a finite value, \<open>-0\<close>, an infinity or NaN.  An object is the list of its
  properties in the order of their creation; property names that are array indices,
  which JavaScript enumerates first, do not occur in a training state and are not
  treated apart.
\<close>

datatype jsnum = Finite real | MinusZero | PlusInfinity | MinusInfinity | NotANumber

datatype jsval =
    JsUndefined
  | JsNull
  | JsBoolean bool
  | JsNumber jsnum
  | JsString string
  | JsArray "jsval list"
  | JsObject "(string \<times> jsval) list"

text \<open>
  A JSON text is represented by its syntax tree.  The text of a finite number is
  represented by the number: \<open>Number::toString\<close> prints the shortest decimal that reads
  back as the same double.  The literal \<open>-0\<close> is a JSON text of its own, which
  \<open>JSON.parse\<close> reads as \<open>-0\<close> and \<open>JSON.stringify\<close> never writes.
\<close>

datatype json =
    JNull
  | JBool bool
  | JNumber real
  | JMinusZero
  | JString string
  | JArray "json list"
  | JObject "(string \<times> json) list"

text \<open>
  \<open>SerializeJSONProperty\<close>: \<open>undefined\<close> has no text; a number that is not finite is
  written \<open>null\<close> and \<open>-0\<close> is written \<open>0\<close>; in an array an element without a text is
  written \<open>null\<close>; in an object a property without a text is left out.
\<close>

definition numberText :: "jsnum \<Rightarrow> json" where
  "numberText n = (case n of Finite r \<Rightarrow> JNumber r | MinusZero \<Rightarrow> JNumber 0 | _ \<Rightarrow> JNull)"

definition elementText :: "json option \<Rightarrow> json" where
  "elementText t = (case t of None \<Rightarrow> JNull | Some j \<Rightarrow> j)"

definition memberText :: "string \<times> json option \<Rightarrow> (string \<times> json) option" where
  "memberText m = (case snd m of None \<Rightarrow> None | Some j \<Rightarrow> Some (fst m, j))"

primrec JSON_stringify :: "jsval \<Rightarrow> json option" where
  "JSON_stringify JsUndefined = None"
| "JSON_stringify JsNull = Some JNull"
| "JSON_stringify (JsBoolean b) = Some (JBool b)"
| "JSON_stringify (JsNumber n) = Some (numberText n)"
| "JSON_stringify (JsString s) = Some (JString s)"
| "JSON_stringify (JsArray vs) = Some (JArray (map elementText (map JSON_stringify vs)))"
| "JSON_stringify (JsObject ps) =
     Some (JObject (List.map_filter memberText (map (map_prod id JSON_stringify) ps)))"

text \<open>
  \<open>JSON.parse\<close> on a JSON text.  The members of an object are defined in the order of
  the text; a name that occurs again replaces the value and keeps the place of the
  first occurrence.
\<close>

fun defineProperty :: "(string \<times> 'a) list \<Rightarrow> string \<times> 'a \<Rightarrow> (string \<times> 'a) list" where
  "defineProperty [] m = [m]"
| "defineProperty (p # ps) m = (if fst p = fst m then m # ps else p # defineProperty ps m)"

primrec parseValue :: "json \<Rightarrow> jsval" where
  "parseValue JNull = JsNull"
| "parseValue (JBool b) = JsBoolean b"
| "parseValue (JNumber r) = JsNumber (Finite r)"
| "parseValue JMinusZero = JsNumber MinusZero"
| "parseValue (JString s) = JsString s"
| "parseValue (JArray js) = JsArray (map parseValue js)"
| "parseValue (JObject ms) = JsObject (foldl defineProperty [] (map (map_prod id parseValue) ms))"

subsection \<open>Files\<close>

text \<open>
  A file holds a JSON text or some other text.  \<open>fs.writeFileSync\<close> throws when the
  data is not a string (\<open>JSON.stringify\<close> returned \<open>undefined\<close>) and when the path
  cannot be written, and then the files are taken to be as they were;
  \<open>fs.readFileSync\<close> throws when the file is missing or cannot be read;
  \<open>JSON.parse\<close> throws on a text that is not JSON.
\<close>

datatype fileData = JsonText json | OtherText

datatype ioError = TypeError | WriteError | ReadError | SyntaxError

record fileSystem =
  files :: "string \<Rightarrow> fileData option"
  unwritable :: "string set"
  unreadable :: "string set"

definition writeFileSync :: "fileSystem \<Rightarrow> string \<Rightarrow> json option \<Rightarrow> ioError + fileSystem" where
  "writeFileSync fsys path datum =
     (case datum of
        None \<Rightarrow> Inl TypeError
      | Some text \<Rightarrow>
          if path \<in> unwritable fsys then Inl WriteError
          else Inr (fsys\<lparr>files := (files fsys)(path \<mapsto> JsonText text)\<rparr>))"

definition existsSync :: "fileSystem \<Rightarrow> string \<Rightarrow> bool" where
  "existsSync fsys path = (files fsys path \<noteq> None)"

definition readFileSync :: "fileSystem \<Rightarrow> string \<Rightarrow> ioError + fileData" where
  "readFileSync fsys path =
     (case files fsys path of
        None \<Rightarrow> Inl ReadError
      | Some d \<Rightarrow> if path \<in> unreadable fsys then Inl ReadError else Inr d)"

definition JSON_parse :: "fileData \<Rightarrow> ioError + jsval" where
  "JSON_parse d = (case d of JsonText j \<Rightarrow> Inr (parseValue j) | OtherText \<Rightarrow> Inl SyntaxError)"

subsection \<open>The checkpoint helpers\<close>

text \<open>
  \<open>saveTrainingState\<close> (index.js 314-321) and \<open>loadTrainingState\<close> (index.js 328-343).
  Both catch every exception: a failed save changes nothing, a failed load returns
  \<open>null\<close>.  The messages on the console are not modelled.
\<close>

definition saveTrainingState :: "jsval \<Rightarrow> string \<Rightarrow> fileSystem \<Rightarrow> fileSystem" where
  "saveTrainingState trainingState checkpointPath fsys =
     (case writeFileSync fsys checkpointPath (JSON_stringify trainingState) of
        Inl err \<Rightarrow> fsys
      | Inr fsys' \<Rightarrow> fsys')"

definition loadTrainingState :: "string \<Rightarrow> fileSystem \<Rightarrow> jsval" where
  "loadTrainingState checkpointPath fsys =
     (if existsSync fsys checkpointPath then
        (case readFileSync fsys checkpointPath of
           Inl err \<Rightarrow> JsNull
         | Inr d \<Rightarrow>
             (case JSON_parse d of
                Inl err \<Rightarrow> JsNull
              | Inr trainingState \<Rightarrow> trainingState))
      else JsNull)"

text \<open>
  The object literals of \<open>train\<close>: the state that is saved (index.js 555-562, 795-802
  and 819-826), a transition as it is pushed (index.js 634-641) and a feature
  (\<open>getFeatureVector\<close>, index.js 392-411).
\<close>

definition stateToSave ::
  "jsval \<Rightarrow> jsval \<Rightarrow> jsval \<Rightarrow> jsval \<Rightarrow> jsval \<Rightarrow> jsval \<Rightarrow> jsval" where
  "stateToSave episodeV epsilonV replayBufferV episodeLossesV episodeMaxQsV baseLearningRateV =
     JsObject [(''episode'', episodeV), (''epsilon'', epsilonV), (''replayBuffer'', replayBufferV),
               (''episodeLosses'', episodeLossesV), (''episodeMaxQs'', episodeMaxQsV),
               (''baseLearningRate'', baseLearningRateV)]"

definition transitionObject ::
  "jsval \<Rightarrow> jsval \<Rightarrow> jsval \<Rightarrow> jsval \<Rightarrow> jsval \<Rightarrow> jsval \<Rightarrow> jsval" where
  "transitionObject stateV actionV rewardV nextStateV doneV priorityV =
     JsObject [(''state'', stateV), (''action'', actionV), (''reward'', rewardV),
               (''nextState'', nextStateV), (''done'', doneV), (''priority'', priorityV)]"

definition featureObject :: "jsval \<Rightarrow> jsval \<Rightarrow> jsval" where
  "featureObject gridV offsetV = JsObject [(''grid'', gridV), (''offset'', offsetV)]"

text \<open>A property read \<open>v.name\<close>, where it does not throw.\<close>

definition getProperty :: "string \<Rightarrow> jsval \<Rightarrow> jsval option" where
  "getProperty name v =
     (case v of
        JsObject ps \<Rightarrow> Some (case map_of ps name of None \<Rightarrow> JsUndefined | Some x \<Rightarrow> x)
      | JsUndefined \<Rightarrow> None
      | JsNull \<Rightarrow> None
      | _ \<Rightarrow> Some JsUndefined)"

text \<open>
  The values that a JSON text carries: no \<open>undefined\<close>, no number other than a finite
  one, and objects whose property names are pairwise different.
\<close>

primrec jsonSafe :: "jsval \<Rightarrow> bool" where
  "jsonSafe JsUndefined = False"
| "jsonSafe JsNull = True"
| "jsonSafe (JsBoolean b) = True"
| "jsonSafe (JsNumber n) = (case n of Finite r \<Rightarrow> True | _ \<Rightarrow> False)"
| "jsonSafe (JsString s) = True"
| "jsonSafe (JsArray vs) = list_all (\<lambda>b. b) (map jsonSafe vs)"
| "jsonSafe (JsObject ps) =
     (distinct (map fst ps) \<and> list_all snd (map (map_prod id jsonSafe) ps))"

section \<open>game/game.js: the grid environment\<close>

text \<open>
  The constants \<open>BOARD_WIDTH\<close>, \<open>BOARD_HEIGHT\<close> and \<open>TICK_SPAWN_INTERVAL\<close> come from
  \<open>constants.js\<close>; they are parameters here (the board size is stored in the game by
  the constructor, the spawn interval is passed to \<open>tick\<close> and \<open>step\<close>).
  Coordinates and counters are JavaScript integers, modelled as \<open>int\<close>.
\<close>

datatype pos = Pos (px: int) (py: int)

datatype error = BoardFull

record game =
  width :: int
  height :: int
  tickCount :: int
  score :: real
  foodEaten :: int
  redBlocksEaten :: int
  greenBlocksEaten :: int
  obstacles :: "pos list"
  redBlocks :: "pos list"
  greenBlocks :: "pos list"
  player :: pos
  food :: pos
  moveHistory :: "string list"
  cyclePenaltyCount :: int
  wallPenaltyCount :: int
  visitedCells :: "pos set"

text \<open>
  \<open>visitedCells\<close> is a \<open>Set\<close> of the keys \<open>x,y\<close>; the key of a cell determines the
  cell, so the set of cells stands for it.  \<open>debugPatternDetection\<close> only switches
  console output and is left out.
\<close>

definition EXPLORATION_BONUS :: real where
  "EXPLORATION_BONUS = 0.6"

text \<open>The callback \<open>o => o.x === x && o.y === y\<close> of the \<open>some\<close> calls.\<close>

definition atCell :: "int \<Rightarrow> int \<Rightarrow> pos \<Rightarrow> bool" where
  "atCell x y p = (px p = x \<and> py p = y)"

definition isWithinBounds :: "game \<Rightarrow> int \<Rightarrow> int \<Rightarrow> bool" where
  "isWithinBounds g x y = (x \<ge> 0 \<and> x < width g \<and> y \<ge> 0 \<and> y < height g)"

text \<open>
  \<open>isOccupied\<close> (index.js 908-916).  While the constructor runs, \<open>this.player\<close> and
  \<open>this.food\<close> are still undefined and their checks are skipped; \<open>occupiedBy\<close>
  takes them as options for that reason.
\<close>

definition occupiedBy ::
  "pos option \<Rightarrow> pos option \<Rightarrow> pos list \<Rightarrow> pos list \<Rightarrow> pos list \<Rightarrow> int \<Rightarrow> int \<Rightarrow> bool" where
  "occupiedBy pl fo obs reds greens x y =
     (if (case pl of None \<Rightarrow> False | Some p \<Rightarrow> px p = x \<and> py p = y) then True
      else if (case fo of None \<Rightarrow> False | Some f \<Rightarrow> px f = x \<and> py f = y) then True
      else if list_ex (atCell x y) obs then True
      else if list_ex (atCell x y) reds then True
      else if list_ex (atCell x y) greens then True
      else False)"

definition isOccupied :: "game \<Rightarrow> int \<Rightarrow> int \<Rightarrow> bool" where
  "isOccupied g x y =
     occupiedBy (Some (player g)) (Some (food g)) (obstacles g) (redBlocks g) (greenBlocks g) x y"

text \<open>
  \<open>getRandomFreePosition\<close> (index.js 922-934): a do-while loop that draws a cell, counts
  the attempt, throws once the count exceeds 1000 and otherwise repeats while the cell
  is occupied.  \<open>attempts\<close> is the count before the draw.
\<close>

function freePositionLoop ::
  "(int \<Rightarrow> int \<Rightarrow> bool) \<Rightarrow> int \<Rightarrow> int \<Rightarrow> nat \<Rightarrow> rnd \<Rightarrow> (error + pos) \<times> rnd" where
  "freePositionLoop occ w h attempts rs =
     (let x = \<lfloor>rs 0 * of_int w\<rfloor>;
          y = \<lfloor>rs 1 * of_int h\<rfloor>;
          attempts' = attempts + 1
      in if attempts' > 1000 then (Inl BoardFull, skip 2 rs)
         else if occ x y then freePositionLoop occ w h attempts' (skip 2 rs)
         else (Inr (Pos x y), skip 2 rs))"
  by pat_completeness auto
termination
  by (relation "measure (\<lambda>(occ, w, h, attempts, rs). 1001 - attempts)") auto

declare freePositionLoop.simps [simp del]

definition getRandomFreePosition :: "game \<Rightarrow> rnd \<Rightarrow> (error + pos) \<times> rnd" where
  "getRandomFreePosition g rs = freePositionLoop (isOccupied g) (width g) (height g) 0 rs"

text \<open>The cross of the constructor and of the patterns \<open>normal\<close> and default.\<close>

definition crossObstacles :: "int \<Rightarrow> int \<Rightarrow> pos list" where
  "crossObstacles centerX centerY =
     concat (map (\<lambda>y. map (\<lambda>x. Pos x y) [centerX - 1..centerX + 1]) [centerY - 4..centerY + 4])
     @ concat (map (\<lambda>x. map (\<lambda>y. Pos x y) [centerY - 1..centerY + 1]) [centerX - 4..centerX + 4])"

definition diamondObstacles :: "int \<Rightarrow> int \<Rightarrow> pos list" where
  "diamondObstacles centerX centerY =
     [Pos centerX (centerY - 3)]
     @ map (\<lambda>x. Pos x (centerY - 2)) [centerX - 1..centerX + 1]
     @ map (\<lambda>x. Pos x (centerY - 1)) [centerX - 2..centerX + 2]
     @ map (\<lambda>x. Pos x centerY) [centerX - 3..centerX + 3]
     @ map (\<lambda>x. Pos x (centerY + 1)) [centerX - 2..centerX + 2]
     @ map (\<lambda>x. Pos x (centerY + 2)) [centerX - 1..centerX + 1]
     @ [Pos centerX (centerY + 3)]"

text \<open>
  \<open>setObstaclePattern\<close> (index.js 1170-1240).  It stores the list as it was pushed,
  duplicates included.
\<close>

definition setObstaclePattern :: "string \<Rightarrow> game \<Rightarrow> game" where
  "setObstaclePattern pattern g =
     (let centerX = (width g - 1) div 2;
          centerY = (height g - 1) div 2
      in g\<lparr>obstacles :=
            (if pattern = ''normal'' then crossObstacles centerX centerY
             else if pattern = ''diamond'' then diamondObstacles centerX centerY
             else if pattern = ''none'' then []
             else crossObstacles centerX centerY)\<rparr>)"

text \<open>
  The constructor (index.js 847-890).  \<open>Array.from(new Map(...).values())\<close> keeps one
  entry for each key, in the order of the first insertion of the key.
\<close>

definition dedupe :: "pos list \<Rightarrow> pos list" where
  "dedupe ps = rev (remdups (rev ps))"

definition newGame :: "int \<Rightarrow> int \<Rightarrow> rnd \<Rightarrow> (error + game) \<times> rnd" where
  "newGame BOARD_WIDTH BOARD_HEIGHT rs =
     (let centerX = (BOARD_WIDTH - 1) div 2;
          centerY = (BOARD_HEIGHT - 1) div 2;
          obs = dedupe (crossObstacles centerX centerY)
      in case freePositionLoop (occupiedBy None None obs [] []) BOARD_WIDTH BOARD_HEIGHT 0 rs of
           (Inl e, rs1) \<Rightarrow> (Inl e, rs1)
         | (Inr pl, rs1) \<Rightarrow>
            (case freePositionLoop (occupiedBy (Some pl) None obs [] []) BOARD_WIDTH BOARD_HEIGHT 0 rs1 of
               (Inl e, rs2) \<Rightarrow> (Inl e, rs2)
             | (Inr fo, rs2) \<Rightarrow>
                (Inr \<lparr>width = BOARD_WIDTH, height = BOARD_HEIGHT, tickCount = 0, score = 0,
                      foodEaten = 0, redBlocksEaten = 0, greenBlocksEaten = 0,
                      obstacles = obs, redBlocks = [], greenBlocks = [],
                      player = pl, food = fo, moveHistory = [],
                      cyclePenaltyCount = 0, wallPenaltyCount = 0,
                      visitedCells = {pl}\<rparr>, rs2)))"

text \<open>\<open>movePlayer\<close> (index.js 940-963).\<close>

definition movePlayer :: "string \<Rightarrow> game \<Rightarrow> game" where
  "movePlayer direction g =
     (let newX = px (player g); newY = py (player g)
      in case (if direction = ''up'' then Some (newX, newY - 1)
               else if direction = ''down'' then Some (newX, newY + 1)
               else if direction = ''left'' then Some (newX - 1, newY)
               else if direction = ''right'' then Some (newX + 1, newY)
               else None) of
           None \<Rightarrow> g
         | Some (newX, newY) \<Rightarrow>
             if \<not> isWithinBounds g newX newY then g
             else if list_ex (atCell newX newY) (obstacles g) then g
             else g\<lparr>player := Pos newX newY\<rparr>)"

text \<open>
  \<open>Array.prototype.splice(i, 1)\<close>: a negative start counts from the end, a start beyond
  the end removes nothing.
\<close>

definition spliceOne :: "int \<Rightarrow> 'a list \<Rightarrow> 'a list" where
  "spliceOne i xs =
     (let n = int (length xs);
          s = (if i < 0 then max (n + i) 0 else min i n)
      in take (nat s) xs @ drop (nat s + 1) xs)"

text \<open>
  \<open>checkCollisions\<close> (index.js 969-999), in three parts: the food, the loop over the
  green blocks and the loop over the red blocks.  Both keep their index after a
  removal (\<open>i--\<close> followed by \<open>i++\<close>).  A throw of the food placement leaves the
  score and the counter updated and ends the call.
\<close>

function greenLoop :: "nat \<Rightarrow> game \<Rightarrow> rnd \<Rightarrow> game \<times> rnd" where
  "greenLoop i g rs =
     (if i < length (greenBlocks g) then
        (let gb = greenBlocks g ! i
         in if px (player g) = px gb \<and> py (player g) = py gb then
              (let g1 = g\<lparr>score := score g + 25,
                          greenBlocksEaten := greenBlocksEaten g + 1,
                          greenBlocks := spliceOne (int i) (greenBlocks g)\<rparr>
               in if length (redBlocks g1) > 0 then
                    (let randIndex = \<lfloor>rs 0 * of_nat (length (redBlocks g1))\<rfloor>
                     in greenLoop i (g1\<lparr>redBlocks := spliceOne randIndex (redBlocks g1)\<rparr>)
                          (skip 1 rs))
                  else greenLoop i g1 rs)
            else greenLoop (i + 1) g rs)
      else (g, rs))"
  by pat_completeness auto
termination
  by (relation "measure (\<lambda>(i, g, rs). length (greenBlocks g) - i)")
     (auto simp: spliceOne_def Let_def)

declare greenLoop.simps [simp del]

function redLoop :: "nat \<Rightarrow> game \<Rightarrow> game" where
  "redLoop i g =
     (if i < length (redBlocks g) then
        (let rb = redBlocks g ! i
         in if px (player g) = px rb \<and> py (player g) = py rb then
              redLoop i (g\<lparr>score := score g - 20,
                           redBlocksEaten := redBlocksEaten g + 1,
                           redBlocks := spliceOne (int i) (redBlocks g)\<rparr>)
            else redLoop (i + 1) g)
      else g)"
  by pat_completeness auto
termination
  by (relation "measure (\<lambda>(i, g). length (redBlocks g) - i)")
     (auto simp: spliceOne_def Let_def)

declare redLoop.simps [simp del]

definition foodCollision :: "game \<Rightarrow> rnd \<Rightarrow> (error + unit) \<times> game \<times> rnd" where
  "foodCollision g rs =
     (if px (player g) = px (food g) \<and> py (player g) = py (food g) then
        (let g1 = g\<lparr>score := score g + 40, foodEaten := foodEaten g + 1\<rparr>
         in case getRandomFreePosition g1 rs of
              (Inl e, rs1) \<Rightarrow> (Inl e, g1, rs1)
            | (Inr p, rs1) \<Rightarrow> (Inr (), g1\<lparr>food := p\<rparr>, rs1))
      else (Inr (), g, rs))"

definition checkCollisions :: "game \<Rightarrow> rnd \<Rightarrow> (error + unit) \<times> game \<times> rnd" where
  "checkCollisions g rs =
     (case foodCollision g rs of
        (Inl e, g1, rs1) \<Rightarrow> (Inl e, g1, rs1)
      | (Inr u, g1, rs1) \<Rightarrow>
          (case greenLoop 0 g1 rs1 of (g2, rs2) \<Rightarrow> (Inr (), redLoop 0 g2, rs2)))"

text \<open>\<open>spawnBonusPair\<close> (index.js 1014-1019) and \<open>tick\<close> (index.js 1004-1009).\<close>

definition spawnBonusPair :: "game \<Rightarrow> rnd \<Rightarrow> (error + unit) \<times> game \<times> rnd" where
  "spawnBonusPair g rs =
     (case getRandomFreePosition g rs of
        (Inl e, rs1) \<Rightarrow> (Inl e, g, rs1)
      | (Inr redPos, rs1) \<Rightarrow>
          (let g1 = g\<lparr>redBlocks := redBlocks g @ [redPos]\<rparr>
           in case getRandomFreePosition g1 rs1 of
                (Inl e, rs2) \<Rightarrow> (Inl e, g1, rs2)
              | (Inr greenPos, rs2) \<Rightarrow>
                  (Inr (), g1\<lparr>greenBlocks := greenBlocks g1 @ [greenPos]\<rparr>, rs2)))"

text \<open>
  \<open>a % b === 0\<close> on integers: the remainder of a division by zero is NaN, which
  is not 0.
\<close>

definition tick :: "int \<Rightarrow> game \<Rightarrow> rnd \<Rightarrow> (error + unit) \<times> game \<times> rnd" where
  "tick TICK_SPAWN_INTERVAL g rs =
     (let g1 = g\<lparr>tickCount := tickCount g + 1\<rparr>
      in if TICK_SPAWN_INTERVAL \<noteq> 0 \<and> tickCount g1 mod TICK_SPAWN_INTERVAL = 0
         then spawnBonusPair g1 rs
         else (Inr (), g1, rs))"

text \<open>\<open>getState\<close> (index.js 1142-1152): a snapshot of the positions, the tick and the score.\<close>

record gameState =
  statePlayer :: pos
  stateFood :: pos
  stateRedBlocks :: "pos list"
  stateGreenBlocks :: "pos list"
  stateObstacles :: "pos list"
  stateTickCount :: int
  stateScore :: real

definition getState :: "game \<Rightarrow> gameState" where
  "getState g = \<lparr>statePlayer = player g, stateFood = food g, stateRedBlocks = redBlocks g,
                 stateGreenBlocks = greenBlocks g, stateObstacles = obstacles g,
                 stateTickCount = tickCount g, stateScore = score g\<rparr>"

text \<open>
  \<open>reset\<close> (index.js 1025-1037).  The player is drawn while the old food and the old
  blocks are still in place; the food is drawn after the blocks are cleared.
\<close>

definition reset :: "game \<Rightarrow> rnd \<Rightarrow> (error + gameState) \<times> game \<times> rnd" where
  "reset g rs =
     (let g1 = g\<lparr>tickCount := 0, score := 0\<rparr>
      in case getRandomFreePosition g1 rs of
           (Inl e, rs1) \<Rightarrow> (Inl e, g1, rs1)
         | (Inr pl, rs1) \<Rightarrow>
             (let g2 = g1\<lparr>player := pl, redBlocks := [], greenBlocks := []\<rparr>
              in case getRandomFreePosition g2 rs1 of
                   (Inl e, rs2) \<Rightarrow> (Inl e, g2, rs2)
                 | (Inr fo, rs2) \<Rightarrow>
                     (let g3 = g2\<lparr>food := fo, moveHistory := [], visitedCells := {pl}\<rparr>
                      in (Inr (getState g3), g3, rs2))))"

subsection \<open>The parts of \<open>step\<close>\<close>

text \<open>\<open>moveHistory.push(action)\<close>, then \<open>shift()\<close> once more than 20 are kept (1050-1053).\<close>

definition pushHistory :: "string \<Rightarrow> game \<Rightarrow> game" where
  "pushHistory act g =
     (let h = moveHistory g @ [act]
      in g\<lparr>moveHistory := (if length h > 20 then tl h else h)\<rparr>)"

text \<open>The exploration bonus (1055-1060).\<close>

definition explorationBonus :: "game \<Rightarrow> game" where
  "explorationBonus g =
     (if player g \<notin> visitedCells g
      then g\<lparr>visitedCells := insert (player g) (visitedCells g),
             score := score g + EXPLORATION_BONUS\<rparr>
      else g)"

text \<open>The distance shaping and the progress penalty (1062-1073).\<close>

definition distanceShaping :: "int \<Rightarrow> int \<Rightarrow> game \<Rightarrow> game" where
  "distanceShaping oldX oldY g =
     (let d_old = \<bar>oldX - px (food g)\<bar> + \<bar>oldY - py (food g)\<bar>;
          d_new = \<bar>px (player g) - px (food g)\<bar> + \<bar>py (player g) - py (food g)\<bar>;
          shapingReward = 1.0 * real_of_int (d_old - d_new);
          g1 = g\<lparr>score := score g + shapingReward\<rparr>;
          progressThreshold = 0.5
      in if real_of_int (d_old - d_new) < progressThreshold
         then g1\<lparr>score := score g1 - 0.5\<rparr> else g1)"

text \<open>\<open>Array.prototype.join(',')\<close> and \<open>slice(-n)\<close>.\<close>

fun joinComma :: "string list \<Rightarrow> string" where
  "joinComma [] = []"
| "joinComma [a] = a"
| "joinComma (a # b # r) = a @ '','' @ joinComma (b # r)"

definition sliceLast :: "nat \<Rightarrow> 'a list \<Rightarrow> 'a list" where
  "sliceLast n xs = drop (length xs - n) xs"

text \<open>The loop that looks for two equal neighbours in \<open>last10\<close> (1099-1104).\<close>

fun adjacentEqual :: "'a list \<Rightarrow> bool" where
  "adjacentEqual (a # b # r) = (if a = b then True else adjacentEqual (b # r))"
| "adjacentEqual _ = False"

text \<open>
  The penalties for repeated move patterns (1075-1121): the 4-move cycle on the last 8
  moves, then on the last 10 moves one of three branches chosen by the number of
  distinct moves.
\<close>

definition cyclePenalty :: "game \<Rightarrow> game" where
  "cyclePenalty g =
     (if length (moveHistory g) \<ge> 8 then
        (let last8 = sliceLast 8 (moveHistory g);
             firstHalf = joinComma (take 4 last8);
             secondHalf = joinComma (drop 4 last8)
         in if firstHalf = secondHalf
            then g\<lparr>score := score g - 1.5, cyclePenaltyCount := cyclePenaltyCount g + 1\<rparr>
            else g)
      else g)"

definition repeatPenalty :: "game \<Rightarrow> game" where
  "repeatPenalty g =
     (if length (moveHistory g) \<ge> 10 then
        (let last10 = sliceLast 10 (moveHistory g);
             uniqueMoves = remdups last10
         in if length uniqueMoves = 1 then g\<lparr>score := score g - 2\<rparr>
            else if length uniqueMoves = 2 then
              (let patternAlternates = \<not> adjacentEqual last10
               in if patternAlternates then g\<lparr>score := score g - 2\<rparr> else g)
            else
              (let candidate = last10 ! 0;
                   countSame = length (filter (\<lambda>move. move = candidate) last10)
               in if countSame \<ge> 8 then g\<lparr>score := score g - 0.5\<rparr> else g))
      else g)"

definition patternPenalties :: "game \<Rightarrow> game" where
  "patternPenalties g = repeatPenalty (cyclePenalty g)"

text \<open>The wall penalty (1127-1130).\<close>

definition wallPenalty :: "int \<Rightarrow> int \<Rightarrow> game \<Rightarrow> game" where
  "wallPenalty oldX oldY g =
     (if px (player g) = oldX \<and> py (player g) = oldY
      then g\<lparr>score := score g - 3, wallPenaltyCount := wallPenaltyCount g + 1\<rparr>
      else g)"

text \<open>
  \<open>step\<close> (index.js 1044-1136).  The part before the pickups cannot throw; the pickups
  and the tick can, and then the game keeps what was done before the throw.
\<close>

definition beforeCollisions :: "string \<Rightarrow> game \<Rightarrow> game" where
  "beforeCollisions act g =
     (let oldX = px (player g); oldY = py (player g)
      in wallPenalty oldX oldY
           (patternPenalties
             (distanceShaping oldX oldY
               (explorationBonus (pushHistory act (movePlayer act g))))))"

definition step ::
  "int \<Rightarrow> string \<Rightarrow> game \<Rightarrow> rnd \<Rightarrow> (error + gameState \<times> real \<times> bool) \<times> game \<times> rnd" where
  "step TICK_SPAWN_INTERVAL act g rs =
     (let previousScore = score g;
          g1 = beforeCollisions act g
      in case checkCollisions g1 rs of
           (Inl e, g2, rs2) \<Rightarrow> (Inl e, g2, rs2)
         | (Inr u, g2, rs2) \<Rightarrow>
             (case tick TICK_SPAWN_INTERVAL g2 rs2 of
                (Inl e, g3, rs3) \<Rightarrow> (Inl e, g3, rs3)
              | (Inr u', g3, rs3) \<Rightarrow>
                  (let reward = score g3 - previousScore
                   in (Inr (getState g3, reward, False), g3, rs3))))"

section \<open>Notions used in the statements\<close>

text \<open>
  The \<open>k\<close>-th cell that a placement draws from the tape \<open>rs\<close> (two draws for each
  cell), the cell next to a position in a direction, and a cell of the board that no
  obstacle covers.
\<close>

definition drawnX :: "int \<Rightarrow> rnd \<Rightarrow> nat \<Rightarrow> int" where
  "drawnX w rs k = \<lfloor>rs (2 * k) * of_int w\<rfloor>"

definition drawnY :: "int \<Rightarrow> rnd \<Rightarrow> nat \<Rightarrow> int" where
  "drawnY h rs k = \<lfloor>rs (2 * k + 1) * of_int h\<rfloor>"

definition neighbour :: "string \<Rightarrow> pos \<Rightarrow> pos" where
  "neighbour direction p =
     (if direction = ''up'' then Pos (px p) (py p - 1)
      else if direction = ''down'' then Pos (px p) (py p + 1)
      else if direction = ''left'' then Pos (px p - 1) (py p)
      else if direction = ''right'' then Pos (px p + 1) (py p)
      else p)"

definition onFreeGround :: "game \<Rightarrow> pos \<Rightarrow> bool" where
  "onFreeGround g p =
     (isWithinBounds g (px p) (py p) \<and> \<not> list_ex (atCell (px p) (py p)) (obstacles g))"

text \<open>
  A run of \<open>step\<close> over a list of actions, as the step loop of \<open>train\<close> and the
  auto-play timer make it; a throw ends the run.
\<close>

fun runSteps :: "int \<Rightarrow> string list \<Rightarrow> game \<Rightarrow> rnd \<Rightarrow> (error + unit) \<times> game \<times> rnd" where
  "runSteps TICK_SPAWN_INTERVAL [] g rs = (Inr (), g, rs)"
| "runSteps TICK_SPAWN_INTERVAL (a # as) g rs =
     (case step TICK_SPAWN_INTERVAL a g rs of
        (Inl e, g1, rs1) \<Rightarrow> (Inl e, g1, rs1)
      | (Inr out, g1, rs1) \<Rightarrow> runSteps TICK_SPAWN_INTERVAL as g1 rs1)"

text \<open>
  The number of blocks of a list on a cell, and the removals of red blocks that \<open>c\<close>
  pickups of green blocks make: each one removes the block at the index
  \<open>\<lfloor>r * length\<rfloor>\<close> for a fresh draw \<open>r\<close>, as long as a red block is left.
\<close>

definition hits :: "pos \<Rightarrow> pos list \<Rightarrow> nat" where
  "hits p bs = length (filter (\<lambda>b. b = p) bs)"

fun removeRandomReds :: "nat \<Rightarrow> pos list \<Rightarrow> rnd \<Rightarrow> pos list \<times> rnd" where
  "removeRandomReds 0 reds rs = (reds, rs)"
| "removeRandomReds (Suc c) reds rs =
     (if length reds > 0
      then removeRandomReds c (spliceOne \<lfloor>rs 0 * of_nat (length reds)\<rfloor> reds) (skip 1 rs)
      else removeRandomReds c reds rs)"

text \<open>
  The games the program can be in: built by the constructor, and then changed by
  its methods \<open>step\<close>, \<open>reset\<close> and \<open>setObstaclePattern\<close>, by \<open>movePlayer\<close>,
  \<open>checkCollisions\<close> and \<open>tick\<close>, which the play mode also calls itself
  (index.js 79-81), and by \<open>spawnBonusPair\<close>.  A call that throws leaves the game as
  it was at the throw.
\<close>

inductive reachable :: "game \<Rightarrow> bool" where
  constructed: "newGame w h rs = (Inr g, rs') \<Longrightarrow> reachable g"
| stepped: "reachable g \<Longrightarrow> reachable (fst (snd (step TSI act g rs)))"
| resetted: "reachable g \<Longrightarrow> reachable (fst (snd (reset g rs)))"
| patterned: "reachable g \<Longrightarrow> reachable (setObstaclePattern pattern g)"
| moved: "reachable g \<Longrightarrow> reachable (movePlayer direction g)"
| collided: "reachable g \<Longrightarrow> reachable (fst (snd (checkCollisions g rs)))"
| ticked: "reachable g \<Longrightarrow> reachable (fst (snd (tick TSI g rs)))"
| spawned: "reachable g \<Longrightarrow> reachable (fst (snd (spawnBonusPair g rs)))"

text \<open>
  The running sum of the normalised effective priorities after the first \<open>m\<close> entries,
  with the roundings of the inner loop of the roulette wheel.
\<close>

definition runningSum :: "doubles \<Rightarrow> real \<Rightarrow> real list \<Rightarrow> nat \<Rightarrow> real" where
  "runningSum ar totalPriority effs m =
     foldl (\<lambda>cumulative p. rounded ar (cumulative + rounded ar (p / totalPriority))) 0
       (take m effs)"

section \<open>Concrete inputs\<close>

text \<open>Transitions that differ in their reward and priority only.\<close>

definition f0 :: feature where
  "f0 = \<lparr>grid = [], offset = [0, 0]\<rparr>"

definition tr :: "real \<Rightarrow> transition" where
  "tr p = \<lparr>state = f0, action = 0, reward = p, nextState = f0, isDone = False,
           priority = Some p\<rparr>"

text \<open>
  A game on a 20 by 15 board with the cross of the constructor, the player in the corner
  \<open>(0, 0)\<close> and the food next to it at \<open>(1, 0)\<close>: the state that the constructor builds
  from a tape that begins \<open>0, 0, 1/20, 0\<close>.
\<close>

definition cornerGame :: game where
  "cornerGame =
     \<lparr>width = 20, height = 15, tickCount = 0, score = 0,
      foodEaten = 0, redBlocksEaten = 0, greenBlocksEaten = 0,
      obstacles = dedupe (crossObstacles 9 7), redBlocks = [], greenBlocks = [],
      player = Pos 0 0, food = Pos 1 0, moveHistory = [],
      cyclePenaltyCount = 0, wallPenaltyCount = 0,
      visitedCells = {Pos 0 0}\<rparr>"

definition zeroTape :: rnd where
  "zeroTape = (\<lambda>i. 0)"


text \<open>
  Two tapes that make the constructor build \<open>cornerGame\<close>: afterwards \<open>foodTape\<close>
  draws the cell \<open>(1, 0)\<close> for ever and \<open>spawnTape\<close> the cell \<open>(0, 0)\<close>.
\<close>

definition foodTape :: rnd where
  "foodTape = (\<lambda>i. if even i \<and> 2 \<le> i then 1 / 20 else 0)"

definition spawnTape :: rnd where
  "spawnTape = (\<lambda>i. if i = 2 then 1 / 20 else 0)"

text \<open>The states that differ from \<open>cornerGame\<close> in the tick, the score and the bookkeeping only.\<close>

definition cornerBoard :: "game \<Rightarrow> int \<Rightarrow> bool" where
  "cornerBoard g t =
     (width g = 20 \<and> height g = 15 \<and> obstacles g = dedupe (crossObstacles 9 7)
      \<and> player g = Pos 0 0 \<and> food g = Pos 1 0 \<and> redBlocks g = [] \<and> greenBlocks g = []
      \<and> tickCount g = t)"

text \<open>
  An episode that begins with the player on \<open>(3, 0)\<close> and the food on \<open>(1, 0)\<close>:
  \<open>skewTape\<close> makes the constructor build \<open>startGame\<close>, and \<open>skewedGame\<close> is the
  game after the nine moves \<open>down\<close>, \<open>up\<close> and seven more \<open>up\<close> against the wall.
\<close>

definition skewTape :: rnd where
  "skewTape = (\<lambda>i. if i = 0 then 3 / 20 else if i = 2 then 1 / 20 else 0)"

definition startGame :: game where
  "startGame = cornerGame\<lparr>player := Pos 3 0, visitedCells := {Pos 3 0}\<rparr>"

definition skewedGame :: game where
  "skewedGame =
     \<lparr>width = 20, height = 15, tickCount = 9, score = - 25.9,
      foodEaten = 0, redBlocksEaten = 0, greenBlocksEaten = 0,
      obstacles = dedupe (crossObstacles 9 7), redBlocks = [], greenBlocks = [],
      player = Pos 3 0, food = Pos 1 0,
      moveHistory = [''down'', ''up'', ''up'', ''up'', ''up'', ''up'', ''up'', ''up'', ''up''],
      cyclePenaltyCount = 1, wallPenaltyCount = 7,
      visitedCells = {Pos 3 0, Pos 3 1}\<rparr>"


definition buffer371 :: "transition list" where
  "buffer371 = [tr 3, tr 7, tr 1]"

definition lastDraw :: real where
  "lastDraw = 1 - 1 / 2 ^ 52"

definition lastTape :: rnd where
  "lastTape = (\<lambda>i. lastDraw)"


text \<open>
  A file system without files, and the state after one episode with one transition in
  the replay buffer, whose priority is \<open>p\<close>; the loss of the episode is NaN.
\<close>

definition emptyDisk :: fileSystem where
  "emptyDisk = \<lparr>files = (\<lambda>path. None), unwritable = {}, unreadable = {}\<rparr>"

definition cellFeature :: jsval where
  "cellFeature =
     featureObject
       (JsArray [JsArray [JsArray [JsNumber (Finite 0), JsNumber (Finite 0), JsNumber (Finite 0),
                                   JsNumber (Finite 0), JsNumber (Finite 1), JsNumber (Finite 0)]]])
       (JsArray [JsNumber (Finite 0.25), JsNumber (Finite 0)])"

definition firstTransition :: "jsval \<Rightarrow> jsval" where
  "firstTransition p =
     transitionObject cellFeature (JsNumber (Finite 3)) (JsNumber (Finite 0.95)) cellFeature
       (JsBoolean False) p"

definition firstState :: "jsval \<Rightarrow> jsval" where
  "firstState p =
     stateToSave (JsNumber (Finite 1)) (JsNumber (Finite 0.999)) (JsArray [firstTransition p])
       (JsArray [JsNumber NotANumber]) (JsArray [JsNumber (Finite 1.5)]) (JsNumber (Finite 0.001))"

section \<open>Tapes and the placement loop\<close>

lemma skip_skip: "skip n (skip m rs) = skip (n + m) rs"
  by (simp add: skip_def add.assoc)

lemma skip_apply: "skip n rs i = rs (i + n)"
  by (simp add: skip_def)

lemma skip_0: "skip 0 rs = rs"
  by (simp add: skip_def)

lemma unitTape_skip: "unitTape rs \<Longrightarrow> unitTape (skip n rs)"
  by (simp add: unitTape_def skip_def)

lemma drawn_skip:
  "drawnX w (skip 2 rs) k = drawnX w rs (Suc k)" "drawnY h (skip 2 rs) k = drawnY h rs (Suc k)"
  by (simp_all add: drawnX_def drawnY_def skip_def)

lemma loop_unfold_occ:
  "attempts < 1000 \<Longrightarrow> occ (drawnX w rs 0) (drawnY h rs 0) \<Longrightarrow>
   freePositionLoop occ w h attempts rs = freePositionLoop occ w h (Suc attempts) (skip 2 rs)"
  by (subst freePositionLoop.simps) (simp add: Let_def drawnX_def drawnY_def)

lemma loop_unfold_free:
  "attempts < 1000 \<Longrightarrow> \<not> occ (drawnX w rs 0) (drawnY h rs 0) \<Longrightarrow>
   freePositionLoop occ w h attempts rs = (Inr (Pos (drawnX w rs 0) (drawnY h rs 0)), skip 2 rs)"
  by (subst freePositionLoop.simps) (simp add: Let_def drawnX_def drawnY_def)

lemma loop_unfold_limit:
  "1000 \<le> attempts \<Longrightarrow> freePositionLoop occ w h attempts rs = (Inl BoardFull, skip 2 rs)"
  by (subst freePositionLoop.simps) (simp add: Let_def)

lemma loop_hit:
  "k + attempts < 1000 \<Longrightarrow> (\<forall>j<k. occ (drawnX w rs j) (drawnY h rs j)) \<Longrightarrow>
   \<not> occ (drawnX w rs k) (drawnY h rs k) \<Longrightarrow>
   freePositionLoop occ w h attempts rs
     = (Inr (Pos (drawnX w rs k) (drawnY h rs k)), skip (2 * k + 2) rs)"
proof (induction k arbitrary: attempts rs)
  case 0
  then show ?case by (simp add: loop_unfold_free numeral_2_eq_2)
next
  case (Suc k)
  have occ0: "occ (drawnX w rs 0) (drawnY h rs 0)"
    using Suc.prems(2) by blast
  have "freePositionLoop occ w h (Suc attempts) (skip 2 rs)
     = (Inr (Pos (drawnX w (skip 2 rs) k) (drawnY h (skip 2 rs) k)), skip (2 * k + 2) (skip 2 rs))"
    using Suc.prems by (intro Suc.IH) (auto simp: drawn_skip)
  moreover have "freePositionLoop occ w h attempts rs
     = freePositionLoop occ w h (Suc attempts) (skip 2 rs)"
    using Suc.prems(1) occ0 by (intro loop_unfold_occ) auto
  ultimately show ?case by (simp add: drawn_skip skip_skip)
qed

lemma loop_fail:
  "attempts + n = 1000 \<Longrightarrow> (\<forall>j<n. occ (drawnX w rs j) (drawnY h rs j)) \<Longrightarrow>
   freePositionLoop occ w h attempts rs = (Inl BoardFull, skip (2 * n + 2) rs)"
proof (induction n arbitrary: attempts rs)
  case 0
  then show ?case by (simp add: loop_unfold_limit numeral_2_eq_2)
next
  case (Suc n)
  have occ0: "occ (drawnX w rs 0) (drawnY h rs 0)"
    using Suc.prems(2) by blast
  have "freePositionLoop occ w h (Suc attempts) (skip 2 rs)
     = (Inl BoardFull, skip (2 * n + 2) (skip 2 rs))"
    using Suc.prems by (intro Suc.IH) (auto simp: drawn_skip)
  moreover have "freePositionLoop occ w h attempts rs
     = freePositionLoop occ w h (Suc attempts) (skip 2 rs)"
    using Suc.prems(1) occ0 by (intro loop_unfold_occ) auto
  ultimately show ?case by (simp add: skip_skip)
qed

lemma loop_cases:
  "(\<forall>j<1000. occ (drawnX w rs j) (drawnY h rs j)) \<and>
     freePositionLoop occ w h 0 rs = (Inl BoardFull, skip 2002 rs)
   \<or> (\<exists>k<1000. (\<forall>j<k. occ (drawnX w rs j) (drawnY h rs j)) \<and> \<not> occ (drawnX w rs k) (drawnY h rs k)
        \<and> freePositionLoop occ w h 0 rs
            = (Inr (Pos (drawnX w rs k) (drawnY h rs k)), skip (2 * k + 2) rs))"
proof (cases "\<forall>j<1000. occ (drawnX w rs j) (drawnY h rs j)")
  case True
  then show ?thesis using loop_fail [of 0 1000 occ w rs h] by simp
next
  case False
  define k where "k = (LEAST j. \<not> occ (drawnX w rs j) (drawnY h rs j))"
  from False obtain j0 where j0: "j0 < 1000" "\<not> occ (drawnX w rs j0) (drawnY h rs j0)" by blast
  have nk: "\<not> occ (drawnX w rs k) (drawnY h rs k)"
    unfolding k_def using j0(2) by (rule LeastI)
  have kle: "k \<le> j0" unfolding k_def using j0(2) by (rule Least_le)
  have below: "\<forall>j<k. occ (drawnX w rs j) (drawnY h rs j)"
    unfolding k_def using not_less_Least by blast
  have k1000: "k < 1000" using kle j0(1) by simp
  have "freePositionLoop occ w h 0 rs
            = (Inr (Pos (drawnX w rs k) (drawnY h rs k)), skip (2 * k + 2) rs)"
    using loop_hit [of k 0 occ w rs h] below nk k1000 by simp
  with below nk k1000 show ?thesis by blast
qed

lemma floor_unit_bounds:
  assumes "0 \<le> r" "r < 1" "0 < (w::int)"
  shows "0 \<le> \<lfloor>r * of_int w\<rfloor> \<and> \<lfloor>r * of_int w\<rfloor> < w"
proof -
  have "0 \<le> r * of_int w" using assms by simp
  moreover have "r * of_int w < of_int w" using assms by simp
  ultimately show ?thesis by (simp add: floor_less_iff)
qed

lemma drawn_bounds:
  assumes "unitTape rs" "0 < w" "0 < h"
  shows "0 \<le> drawnX w rs k \<and> drawnX w rs k < w \<and> 0 \<le> drawnY h rs k \<and> drawnY h rs k < h"
  using assms floor_unit_bounds [of "rs (2 * k)" w] floor_unit_bounds [of "rs (2 * k + 1)" h]
  by (simp add: unitTape_def drawnX_def drawnY_def)

lemma loop_success:
  assumes "freePositionLoop occ w h 0 rs = (Inr p, rs')"
  shows "\<not> occ (px p) (py p)"
    and "unitTape rs \<Longrightarrow> 0 < w \<Longrightarrow> 0 < h \<Longrightarrow> 0 \<le> px p \<and> px p < w \<and> 0 \<le> py p \<and> py p < h"
    and "unitTape rs \<Longrightarrow> unitTape rs'"
proof -
  from loop_cases [of occ w rs h] assms obtain k where
    k: "\<not> occ (drawnX w rs k) (drawnY h rs k)" "p = Pos (drawnX w rs k) (drawnY h rs k)"
       "rs' = skip (2 * k + 2) rs"
    by auto
  show "\<not> occ (px p) (py p)" using k by simp
  show "unitTape rs \<Longrightarrow> 0 < w \<Longrightarrow> 0 < h \<Longrightarrow> 0 \<le> px p \<and> px p < w \<and> 0 \<le> py p \<and> py p < h"
    using k(2) drawn_bounds [of rs w h k] by simp
  show "unitTape rs \<Longrightarrow> unitTape rs'" using k(3) by (simp add: unitTape_skip)
qed

lemma loop_error_iff:
  "fst (freePositionLoop occ w h 0 rs) = Inl BoardFull
     \<longleftrightarrow> (\<forall>k<1000. occ (drawnX w rs k) (drawnY h rs k))"
  using loop_cases [of occ w rs h] by auto


section \<open>Replay buffer capacity\<close>

lemma length_pushTransition:
  "length (pushTransition buf t) = min (length buf + 1) REPLAY_BUFFER_SIZE"
  by (auto simp: pushTransition_def Let_def min_def)

lemma pushTransition_drop:
  "pushTransition buf t = drop (length buf + 1 - REPLAY_BUFFER_SIZE) (buf @ [t])"
  by (simp add: pushTransition_def Let_def)

lemma length_foldl_push_nonempty:
  "ts \<noteq> [] \<Longrightarrow> length (foldl pushTransition buf ts) \<le> REPLAY_BUFFER_SIZE"
proof (induction ts arbitrary: buf rule: rev_induct)
  case Nil
  then show ?case by simp
next
  case (snoc t ts)
  show ?case by (simp add: length_pushTransition)
qed

lemma length_foldl_push_bounded:
  "length buf \<le> REPLAY_BUFFER_SIZE \<Longrightarrow> length (foldl pushTransition buf ts) \<le> REPLAY_BUFFER_SIZE"
  by (cases "ts = []") (simp_all add: length_foldl_push_nonempty)

text \<open>
  C7.  After a push with its eviction step the buffer holds
  \<open>min (length + 1) REPLAY_BUFFER_SIZE\<close> entries, namely the newest ones of the old
  buffer followed by the pushed transition; hence after any non-empty sequence of pushes,
  and after any sequence of pushes into a buffer that was within capacity, the length
  is at most the capacity.
\<close>

theorem replay_buffer_capacity:
  "length (pushTransition buf t) = min (length buf + 1) REPLAY_BUFFER_SIZE
   \<and> pushTransition buf t = drop (length buf + 1 - REPLAY_BUFFER_SIZE) (buf @ [t])
   \<and> (ts \<noteq> [] \<longrightarrow> length (foldl pushTransition buf ts) \<le> REPLAY_BUFFER_SIZE)
   \<and> (length buf \<le> REPLAY_BUFFER_SIZE \<longrightarrow>
        length (foldl pushTransition buf ts) \<le> REPLAY_BUFFER_SIZE)"
  using length_pushTransition pushTransition_drop length_foldl_push_nonempty
    length_foldl_push_bounded by blast

theorem replay_buffer_capacity_witness:
  "[tr 1] \<noteq> [] \<and> length (replicate 10000 (tr 0)) \<le> REPLAY_BUFFER_SIZE
   \<and> length (foldl pushTransition (replicate 10000 (tr 0)) [tr 1]) \<le> REPLAY_BUFFER_SIZE
   \<and> pushTransition (replicate 10000 (tr 0)) (tr 1) = replicate 9999 (tr 0) @ [tr 1]"
proof -
  have ne: "[tr 1] \<noteq> []" by simp
  have le: "length (replicate 10000 (tr 0)) \<le> REPLAY_BUFFER_SIZE"
    by (simp add: REPLAY_BUFFER_SIZE_def)
  have "drop (length (replicate 10000 (tr 0)) + 1 - REPLAY_BUFFER_SIZE)
          (replicate 10000 (tr 0) @ [tr 1]) = replicate 9999 (tr 0) @ [tr 1]"
    by (simp add: REPLAY_BUFFER_SIZE_def)
  with ne le replay_buffer_capacity [of "replicate 10000 (tr 0)" "tr 1" "[tr 1]"]
  show ?thesis by simp
qed

section \<open>Exploration rate\<close>

text \<open>
  C6.  In the decay branch (the episode counter is not a multiple of the cycle length)
  the new exploration rate is at least \<open>epsilonMin\<close>, is not zero, and is either the
  decayed rate or the boost 0.2; no random number is drawn.
\<close>

theorem epsilon_decay_floor:
  assumes "episode mod explorationCycleLength \<noteq> 0"
  shows "epsilonMin \<le> fst (updateEpsilon episode epsilon rs)
    \<and> fst (updateEpsilon episode epsilon rs) \<noteq> 0
    \<and> fst (updateEpsilon episode epsilon rs) =
        (if epsilon * 0.999 < 0.1 then 0.2 else epsilon * 0.999)
    \<and> snd (updateEpsilon episode epsilon rs) = rs"
  using assms
  by (simp add: updateEpsilon_def Let_def epsilonMin_def epsilonBoost_def epsilonDecay_def)

theorem epsilon_decay_floor_witness:
  "(2::int) mod explorationCycleLength \<noteq> 0
   \<and> fst (updateEpsilon 2 1 (\<lambda>_. 0)) = 0.999
   \<and> fst (updateEpsilon 2 0.1 (\<lambda>_. 0)) = 0.2
   \<and> epsilonMin \<le> fst (updateEpsilon 2 0.1 (\<lambda>_. 0))"
proof -
  have h: "(2::int) mod explorationCycleLength \<noteq> 0"
    by (simp add: explorationCycleLength_def)
  from epsilon_decay_floor [OF h, of 1 "\<lambda>_. 0"] epsilon_decay_floor [OF h, of "0.1" "\<lambda>_. 0"] h
  show ?thesis by simp
qed

section \<open>The obstacle patterns\<close>

lemma cross_9_7_card: "card (set (crossObstacles 9 7)) = 45"
  by (simp add: crossObstacles_def upto_rec1 card_insert_if)

lemma cross_9_7_length: "length (crossObstacles 9 7) = 54"
  by (simp add: crossObstacles_def length_concat comp_def)

lemma normal_20_15:
  "obstacles (setObstaclePattern ''normal'' (g\<lparr>width := 20, height := 15\<rparr>)) = crossObstacles 9 7"
  by (simp add: setObstaclePattern_def Let_def)

text \<open>
  C3 (amended).  On a 20 by 15 board the pattern \<open>normal\<close> covers exactly
  \<open>9 * 3 + 9 * 3 - 3 * 3 = 45\<close> distinct cells; the stored list has 54 entries, the
  9 cells of the overlap twice.
\<close>

theorem normal_pattern_cells:
  "card (set (obstacles (setObstaclePattern ''normal'' (g\<lparr>width := 20, height := 15\<rparr>)))) = 45
   \<and> length (obstacles (setObstaclePattern ''normal'' (g\<lparr>width := 20, height := 15\<rparr>))) = 54"
  by (simp only: normal_20_15 cross_9_7_card cross_9_7_length)

theorem normal_pattern_not_69:
  "card (set (obstacles (setObstaclePattern ''normal'' cornerGame))) \<noteq> 69"
proof -
  have "obstacles (setObstaclePattern ''normal'' cornerGame) = crossObstacles 9 7"
    by (simp add: setObstaclePattern_def Let_def cornerGame_def)
  then show ?thesis by (simp add: cross_9_7_card)
qed

section \<open>Random placement\<close>

lemma occupiedBy_iff:
  "occupiedBy pl fo obs reds greens x y \<longleftrightarrow>
     pl = Some (Pos x y) \<or> fo = Some (Pos x y) \<or> Pos x y \<in> set obs \<or> Pos x y \<in> set reds
     \<or> Pos x y \<in> set greens"
proof -
  have "\<And>ps. list_ex (atCell x y) ps \<longleftrightarrow> Pos x y \<in> set ps"
    by (force simp: list_ex_iff atCell_def)
  moreover have "\<And>q. (case q of None \<Rightarrow> False | Some p \<Rightarrow> px p = x \<and> py p = y) \<longleftrightarrow> q = Some (Pos x y)"
    by (auto split: option.splits)
  ultimately show ?thesis by (simp add: occupiedBy_def)
qed

lemma onFreeGround_iff:
  "onFreeGround g p \<longleftrightarrow> 0 \<le> px p \<and> px p < width g \<and> 0 \<le> py p \<and> py p < height g \<and> p \<notin> set (obstacles g)"
  by (cases p) (auto simp: onFreeGround_def isWithinBounds_def list_ex_iff atCell_def)



















section \<open>The player's position\<close>

lemma greenLoop_frame:
  "greenLoop i g rs = (g', rs') \<Longrightarrow>
     player g' = player g \<and> width g' = width g \<and> height g' = height g
     \<and> obstacles g' = obstacles g \<and> food g' = food g \<and> tickCount g' = tickCount g
     \<and> moveHistory g' = moveHistory g"
proof (induction i g rs rule: greenLoop.induct)
  case (1 i g rs)
  show ?case
    using "1.prems" "1.IH"
    apply (subst (asm) greenLoop.simps)
    apply (simp add: Let_def split: if_splits)
    done
qed

lemma redLoop_frame:
  "player (redLoop i g) = player g \<and> width (redLoop i g) = width g
     \<and> height (redLoop i g) = height g \<and> obstacles (redLoop i g) = obstacles g
     \<and> food (redLoop i g) = food g \<and> tickCount (redLoop i g) = tickCount g
     \<and> moveHistory (redLoop i g) = moveHistory g \<and> greenBlocks (redLoop i g) = greenBlocks g"
proof (induction i g rule: redLoop.induct)
  case (1 i g)
  show ?case
    using "1.IH"
    apply (subst (1 2 3 4 5 6 7 8) redLoop.simps)
    apply (simp add: Let_def split: if_splits)
    done
qed

lemma movePlayer_frame:
  "width (movePlayer act g) = width g" "height (movePlayer act g) = height g"
  "obstacles (movePlayer act g) = obstacles g"
  by (simp_all add: movePlayer_def Let_def split: option.splits)

lemma movePlayer_player:
  assumes "act \<in> {''up'', ''down'', ''left'', ''right''}"
  shows "player (movePlayer act g)
     = (if onFreeGround g (neighbour act (player g)) then neighbour act (player g) else player g)"
  using assms
  by (auto simp: movePlayer_def Let_def neighbour_def onFreeGround_def)

lemma pushHistory_frame:
  "player (pushHistory act g) = player g" "width (pushHistory act g) = width g"
  "height (pushHistory act g) = height g" "obstacles (pushHistory act g) = obstacles g"
  by (simp_all add: pushHistory_def Let_def)

lemma explorationBonus_frame:
  "player (explorationBonus g) = player g" "width (explorationBonus g) = width g"
  "height (explorationBonus g) = height g" "obstacles (explorationBonus g) = obstacles g"
  by (simp_all add: explorationBonus_def)

lemma distanceShaping_frame:
  "player (distanceShaping x y g) = player g" "width (distanceShaping x y g) = width g"
  "height (distanceShaping x y g) = height g" "obstacles (distanceShaping x y g) = obstacles g"
  by (simp_all add: distanceShaping_def Let_def)

lemma cyclePenalty_frame:
  "player (cyclePenalty g) = player g" "width (cyclePenalty g) = width g"
  "height (cyclePenalty g) = height g" "obstacles (cyclePenalty g) = obstacles g"
  "moveHistory (cyclePenalty g) = moveHistory g"
  by (simp_all add: cyclePenalty_def Let_def)

lemma repeatPenalty_frame:
  "player (repeatPenalty g) = player g" "width (repeatPenalty g) = width g"
  "height (repeatPenalty g) = height g" "obstacles (repeatPenalty g) = obstacles g"
  by (simp_all add: repeatPenalty_def Let_def)

lemma wallPenalty_frame:
  "player (wallPenalty x y g) = player g" "width (wallPenalty x y g) = width g"
  "height (wallPenalty x y g) = height g" "obstacles (wallPenalty x y g) = obstacles g"
  by (simp_all add: wallPenalty_def)

lemma beforeCollisions_frame:
  "player (beforeCollisions act g) = player (movePlayer act g)"
  "width (beforeCollisions act g) = width g" "height (beforeCollisions act g) = height g"
  "obstacles (beforeCollisions act g) = obstacles g"
  by (simp_all only: beforeCollisions_def Let_def patternPenalties_def wallPenalty_frame
      repeatPenalty_frame cyclePenalty_frame distanceShaping_frame explorationBonus_frame
      pushHistory_frame movePlayer_frame)

lemma foodCollision_frame:
  "player (fst (snd (foodCollision g rs))) = player g
   \<and> width (fst (snd (foodCollision g rs))) = width g
   \<and> height (fst (snd (foodCollision g rs))) = height g
   \<and> obstacles (fst (snd (foodCollision g rs))) = obstacles g"
  by (simp add: foodCollision_def Let_def split: prod.splits sum.splits)

lemma checkCollisions_frame:
  "player (fst (snd (checkCollisions g rs))) = player g
   \<and> width (fst (snd (checkCollisions g rs))) = width g
   \<and> height (fst (snd (checkCollisions g rs))) = height g
   \<and> obstacles (fst (snd (checkCollisions g rs))) = obstacles g"
proof -
  obtain r1 g1 rs1 where f: "foodCollision g rs = (r1, g1, rs1)" by (cases "foodCollision g rs")
  obtain g2 rs2 where gl: "greenLoop 0 g1 rs1 = (g2, rs2)" by (cases "greenLoop 0 g1 rs1")
  have f1: "player g1 = player g \<and> width g1 = width g \<and> height g1 = height g
      \<and> obstacles g1 = obstacles g"
    using foodCollision_frame [of g rs] f by simp
  have f2: "player g2 = player g1 \<and> width g2 = width g1 \<and> height g2 = height g1
      \<and> obstacles g2 = obstacles g1"
    using greenLoop_frame [OF gl] by simp
  show ?thesis
    using f gl f1 f2 redLoop_frame [of 0 g2]
    by (cases r1) (simp_all add: checkCollisions_def)
qed

lemma spawnBonusPair_frame:
  "player (fst (snd (spawnBonusPair g rs))) = player g
   \<and> width (fst (snd (spawnBonusPair g rs))) = width g
   \<and> height (fst (snd (spawnBonusPair g rs))) = height g
   \<and> obstacles (fst (snd (spawnBonusPair g rs))) = obstacles g"
  by (simp add: spawnBonusPair_def Let_def split: prod.splits sum.splits)

lemma tick_frame:
  "player (fst (snd (tick TSI g rs))) = player g
   \<and> width (fst (snd (tick TSI g rs))) = width g
   \<and> height (fst (snd (tick TSI g rs))) = height g
   \<and> obstacles (fst (snd (tick TSI g rs))) = obstacles g"
  using spawnBonusPair_frame [of "g\<lparr>tickCount := tickCount g + 1\<rparr>" rs]
  by (simp add: tick_def Let_def)

lemma step_frame:
  "player (fst (snd (step TSI act g rs))) = player (movePlayer act g)
   \<and> width (fst (snd (step TSI act g rs))) = width g
   \<and> height (fst (snd (step TSI act g rs))) = height g
   \<and> obstacles (fst (snd (step TSI act g rs))) = obstacles g"
proof -
  define g1 where "g1 = beforeCollisions act g"
  obtain r2 g2 rs2 where c: "checkCollisions g1 rs = (r2, g2, rs2)"
    by (cases "checkCollisions g1 rs")
  obtain r3 g3 rs3 where t: "tick TSI g2 rs2 = (r3, g3, rs3)"
    by (cases "tick TSI g2 rs2")
  have f2: "player g2 = player g1 \<and> width g2 = width g1 \<and> height g2 = height g1
      \<and> obstacles g2 = obstacles g1"
    using checkCollisions_frame [of g1 rs] c by simp
  have f3: "player g3 = player g2 \<and> width g3 = width g2 \<and> height g3 = height g2
      \<and> obstacles g3 = obstacles g2"
    using tick_frame [of TSI g2 rs2] t by simp
  have "fst (snd (step TSI act g rs)) = g2 \<or> fst (snd (step TSI act g rs)) = g3"
    using c t by (cases r2; cases r3) (simp_all add: step_def Let_def g1_def)
  then show ?thesis
    using f2 f3 by (auto simp: g1_def beforeCollisions_frame)
qed

text \<open>
  C4.  For each of the four actions, the player's position after \<open>step\<close> (whether the
  call returns or throws) is the neighbouring cell in that direction when that cell is
  on the board and free of obstacles, and the old position otherwise; so it is the old
  position or one cell away in the requested direction, and a player that was on the
  board and off the obstacles is so afterwards.
\<close>

theorem step_player_position:
  assumes "act \<in> {''up'', ''down'', ''left'', ''right''}"
  shows
    "player (fst (snd (step TSI act g rs)))
       = (if onFreeGround g (neighbour act (player g)) then neighbour act (player g) else player g)
     \<and> (player (fst (snd (step TSI act g rs))) = player g
        \<or> player (fst (snd (step TSI act g rs))) = neighbour act (player g))
     \<and> (onFreeGround g (player g)
          \<longrightarrow> onFreeGround (fst (snd (step TSI act g rs))) (player (fst (snd (step TSI act g rs)))))
     \<and> \<bar>px (neighbour act (player g)) - px (player g)\<bar>
         + \<bar>py (neighbour act (player g)) - py (player g)\<bar> = 1"
proof -
  have 1: "player (fst (snd (step TSI act g rs)))
       = (if onFreeGround g (neighbour act (player g)) then neighbour act (player g) else player g)"
    using step_frame [of TSI act g rs] movePlayer_player [OF assms, of g] by simp
  have 2: "onFreeGround (fst (snd (step TSI act g rs))) p = onFreeGround g p" for p
    using step_frame [of TSI act g rs] by (simp add: onFreeGround_iff)
  have 3: "\<bar>px (neighbour act (player g)) - px (player g)\<bar>
         + \<bar>py (neighbour act (player g)) - py (player g)\<bar> = 1"
    using assms by (auto simp: neighbour_def)
  show ?thesis using 1 2 3 by simp
qed

lemma cornerGame_ground:
  "onFreeGround cornerGame (Pos 0 0)" "onFreeGround cornerGame (Pos 0 1)"
  by (simp_all add: onFreeGround_iff cornerGame_def dedupe_def crossObstacles_def upto_rec1)

theorem step_player_position_witness:
  "''down'' \<in> {''up'', ''down'', ''left'', ''right''}
   \<and> onFreeGround cornerGame (player cornerGame)
   \<and> player (fst (snd (step 50 ''down'' cornerGame zeroTape))) = Pos 0 1
   \<and> onFreeGround (fst (snd (step 50 ''down'' cornerGame zeroTape)))
        (player (fst (snd (step 50 ''down'' cornerGame zeroTape))))"
proof -
  have a: "''down'' \<in> {''up'', ''down'', ''left'', ''right''}" by simp
  have pl: "player cornerGame = Pos 0 0" by (simp add: cornerGame_def)
  have n: "neighbour ''down'' (player cornerGame) = Pos 0 1"
    by (simp add: neighbour_def pl)
  have g: "onFreeGround cornerGame (player cornerGame)"
    "onFreeGround cornerGame (neighbour ''down'' (player cornerGame))"
    unfolding n unfolding pl by (rule cornerGame_ground)+
  from step_player_position [OF a, of 50 cornerGame zeroTape] g
  have "player (fst (snd (step 50 ''down'' cornerGame zeroTape))) = Pos 0 1
     \<and> onFreeGround (fst (snd (step 50 ''down'' cornerGame zeroTape)))
        (player (fst (snd (step 50 ''down'' cornerGame zeroTape))))"
    unfolding n by auto
  with a g(1) show ?thesis by blast
qed

section \<open>Throws in the middle of an episode\<close>

lemma movePlayer_items:
  "food (movePlayer act g) = food g" "redBlocks (movePlayer act g) = redBlocks g"
  "greenBlocks (movePlayer act g) = greenBlocks g" "tickCount (movePlayer act g) = tickCount g"
  by (simp_all add: movePlayer_def Let_def split: option.splits)

lemma pushHistory_items:
  "food (pushHistory act g) = food g" "redBlocks (pushHistory act g) = redBlocks g"
  "greenBlocks (pushHistory act g) = greenBlocks g" "tickCount (pushHistory act g) = tickCount g"
  by (simp_all add: pushHistory_def Let_def)

lemma explorationBonus_items:
  "food (explorationBonus g) = food g" "redBlocks (explorationBonus g) = redBlocks g"
  "greenBlocks (explorationBonus g) = greenBlocks g" "tickCount (explorationBonus g) = tickCount g"
  by (simp_all add: explorationBonus_def)

lemma distanceShaping_items:
  "food (distanceShaping x y g) = food g" "redBlocks (distanceShaping x y g) = redBlocks g"
  "greenBlocks (distanceShaping x y g) = greenBlocks g"
  "tickCount (distanceShaping x y g) = tickCount g"
  by (simp_all add: distanceShaping_def Let_def)

lemma cyclePenalty_items:
  "food (cyclePenalty g) = food g" "redBlocks (cyclePenalty g) = redBlocks g"
  "greenBlocks (cyclePenalty g) = greenBlocks g" "tickCount (cyclePenalty g) = tickCount g"
  by (simp_all add: cyclePenalty_def Let_def)

lemma repeatPenalty_items:
  "food (repeatPenalty g) = food g" "redBlocks (repeatPenalty g) = redBlocks g"
  "greenBlocks (repeatPenalty g) = greenBlocks g" "tickCount (repeatPenalty g) = tickCount g"
  by (simp_all add: repeatPenalty_def Let_def)

lemma wallPenalty_items:
  "food (wallPenalty x y g) = food g" "redBlocks (wallPenalty x y g) = redBlocks g"
  "greenBlocks (wallPenalty x y g) = greenBlocks g" "tickCount (wallPenalty x y g) = tickCount g"
  by (simp_all add: wallPenalty_def)

lemma beforeCollisions_items:
  "food (beforeCollisions act g) = food g" "redBlocks (beforeCollisions act g) = redBlocks g"
  "greenBlocks (beforeCollisions act g) = greenBlocks g"
  "tickCount (beforeCollisions act g) = tickCount g"
  by (simp_all only: beforeCollisions_def Let_def patternPenalties_def wallPenalty_items
      repeatPenalty_items cyclePenalty_items distanceShaping_items explorationBonus_items
      pushHistory_items movePlayer_items)

text \<open>The board of \<open>cornerGame\<close>, with anything for the score and the history.\<close>

lemma cross_9_7_free:
  "Pos 0 0 \<notin> set (dedupe (crossObstacles 9 7))" "Pos 1 0 \<notin> set (dedupe (crossObstacles 9 7))"
  by (simp_all add: dedupe_def crossObstacles_def upto_rec1)

lemma newGame_corner:
  assumes "rs 0 = 0" "rs 1 = 0" "rs 2 = 1 / 20" "rs 3 = 0"
  shows "newGame 20 15 rs = (Inr cornerGame, skip 4 rs)"
proof -
  let ?obs = "dedupe (crossObstacles 9 7)"
  have d1: "drawnX 20 rs 0 = 0" "drawnY 15 rs 0 = 0"
    using assms by (simp_all add: drawnX_def drawnY_def)
  have d2: "drawnX 20 (skip 2 rs) 0 = 1" "drawnY 15 (skip 2 rs) 0 = 0"
    using assms by (simp_all add: drawnX_def drawnY_def skip_def eval_nat_numeral)
  have 1: "freePositionLoop (occupiedBy None None ?obs [] []) 20 15 0 rs = (Inr (Pos 0 0), skip 2 rs)"
    using loop_unfold_free [of 0 "occupiedBy None None ?obs [] []" 20 rs 15] cross_9_7_free
    by (simp add: d1 occupiedBy_iff)
  have 2: "freePositionLoop (occupiedBy (Some (Pos 0 0)) None ?obs [] []) 20 15 0 (skip 2 rs)
       = (Inr (Pos 1 0), skip 4 rs)"
    using loop_unfold_free [of 0 "occupiedBy (Some (Pos 0 0)) None ?obs [] []" 20 "skip 2 rs" 15]
      cross_9_7_free
    by (simp add: d2 occupiedBy_iff skip_skip)
  show ?thesis
    by (simp add: newGame_def Let_def 1 2 cornerGame_def)
qed

lemma foodCollision_throws:
  assumes "player g = food g"
    and "\<forall>k<1000. drawnX (width g) rs k = px (player g) \<and> drawnY (height g) rs k = py (player g)"
  shows "fst (foodCollision g rs) = Inl BoardFull"
proof -
  let ?g1 = "g\<lparr>score := score g + 40, foodEaten := foodEaten g + 1\<rparr>"
  have "\<forall>k<1000. isOccupied ?g1 (drawnX (width ?g1) rs k) (drawnY (height ?g1) rs k)"
    using assms(2) by (simp add: isOccupied_def occupiedBy_def)
  then have "fst (getRandomFreePosition ?g1 rs) = Inl BoardFull"
    by (simp add: getRandomFreePosition_def loop_error_iff)
  then obtain rs1 where "getRandomFreePosition ?g1 rs = (Inl BoardFull, rs1)"
    by (cases "getRandomFreePosition ?g1 rs") auto
  then show ?thesis
    using assms(1) by (simp add: foodCollision_def Let_def)
qed

lemma step_throws_on_food:
  assumes "player (movePlayer act g) = food g"
    and "\<forall>k<1000. drawnX (width g) rs k = px (food g) \<and> drawnY (height g) rs k = py (food g)"
  shows "fst (step TSI act g rs) = Inl BoardFull"
proof -
  let ?g1 = "beforeCollisions act g"
  have "player ?g1 = food ?g1"
    using assms(1) by (simp add: beforeCollisions_frame beforeCollisions_items)
  moreover have "\<forall>k<1000. drawnX (width ?g1) rs k = px (player ?g1)
      \<and> drawnY (height ?g1) rs k = py (player ?g1)"
    using assms by (simp add: beforeCollisions_frame)
  ultimately have "fst (foodCollision ?g1 rs) = Inl BoardFull"
    by (rule foodCollision_throws)
  then obtain g2 rs2 where "foodCollision ?g1 rs = (Inl BoardFull, g2, rs2)"
    by (cases "foodCollision ?g1 rs") auto
  then have "checkCollisions ?g1 rs = (Inl BoardFull, g2, rs2)"
    by (simp add: checkCollisions_def)
  then show ?thesis
    by (simp add: step_def Let_def)
qed

lemma step_right_cornerGame:
  "fst (step TSI ''right'' cornerGame (skip 4 foodTape)) = Inl BoardFull"
proof (rule step_throws_on_food)
  have "onFreeGround cornerGame (Pos 1 0)"
    using cross_9_7_free by (simp add: onFreeGround_iff cornerGame_def)
  then show "player (movePlayer ''right'' cornerGame) = food cornerGame"
    using movePlayer_player [of "''right''" cornerGame]
    by (simp add: neighbour_def cornerGame_def)
  show "\<forall>k<1000. drawnX (width cornerGame) (skip 4 foodTape) k = px (food cornerGame)
      \<and> drawnY (height cornerGame) (skip 4 foodTape) k = py (food cornerGame)"
    by (simp add: drawnX_def drawnY_def skip_def foodTape_def cornerGame_def)
qed

lemma greenLoop_done: "length (greenBlocks g) \<le> i \<Longrightarrow> greenLoop i g rs = (g, rs)"
  by (subst greenLoop.simps) simp

lemma redLoop_done: "length (redBlocks g) \<le> i \<Longrightarrow> redLoop i g = g"
  by (subst redLoop.simps) simp

lemma beforeCollisions_up_corner:
  assumes "cornerBoard g t"
  shows "cornerBoard (beforeCollisions ''up'' g) t"
proof -
  have "\<not> onFreeGround g (neighbour ''up'' (player g))"
    using assms by (simp add: cornerBoard_def neighbour_def onFreeGround_iff)
  then have "player (movePlayer ''up'' g) = player g"
    using movePlayer_player [of "''up''" g] by simp
  then show ?thesis
    using assms
    by (simp add: cornerBoard_def beforeCollisions_frame beforeCollisions_items)
qed

lemma checkCollisions_corner:
  assumes "cornerBoard g t"
  shows "checkCollisions g rs = (Inr (), g, rs)"
proof -
  have "foodCollision g rs = (Inr (), g, rs)"
    using assms by (simp add: foodCollision_def cornerBoard_def)
  moreover have "greenLoop 0 g rs = (g, rs)"
    using assms by (simp add: greenLoop_done cornerBoard_def)
  moreover have "redLoop 0 g = g"
    using assms by (simp add: redLoop_done cornerBoard_def)
  ultimately show ?thesis by (simp add: checkCollisions_def)
qed

lemma step_up_idle:
  assumes "cornerBoard g t" "0 \<le> t" "t + 1 < TSI"
  shows "\<exists>out g'. step TSI ''up'' g rs = (Inr out, g', rs) \<and> cornerBoard g' (t + 1)"
proof -
  let ?g1 = "beforeCollisions ''up'' g"
  have c1: "cornerBoard ?g1 t" using assms(1) by (rule beforeCollisions_up_corner)
  have cc: "checkCollisions ?g1 rs = (Inr (), ?g1, rs)" using c1 by (rule checkCollisions_corner)
  have tc: "tickCount ?g1 = t" using c1 by (simp add: cornerBoard_def)
  have "(t + 1) mod TSI = t + 1" using assms(2,3) by simp
  then have tk: "tick TSI ?g1 rs = (Inr (), ?g1\<lparr>tickCount := t + 1\<rparr>, rs)"
    using assms(2) by (simp add: tick_def Let_def tc)
  have "cornerBoard (?g1\<lparr>tickCount := t + 1\<rparr>) (t + 1)"
    using c1 by (simp add: cornerBoard_def)
  moreover have "step TSI ''up'' g rs
      = (Inr (getState (?g1\<lparr>tickCount := t + 1\<rparr>),
              score (?g1\<lparr>tickCount := t + 1\<rparr>) - score g, False),
         ?g1\<lparr>tickCount := t + 1\<rparr>, rs)"
    by (simp add: step_def Let_def cc tk)
  ultimately show ?thesis by blast
qed

lemma step_up_throws:
  assumes "cornerBoard g t" "t + 1 = TSI" "TSI \<noteq> 0"
    and "\<forall>k<1000. drawnX 20 rs k = 0 \<and> drawnY 15 rs k = 0"
  shows "fst (step TSI ''up'' g rs) = Inl BoardFull"
proof -
  let ?g1 = "beforeCollisions ''up'' g"
  let ?g2 = "?g1\<lparr>tickCount := tickCount ?g1 + 1\<rparr>"
  have c1: "cornerBoard ?g1 t" using assms(1) by (rule beforeCollisions_up_corner)
  have cc: "checkCollisions ?g1 rs = (Inr (), ?g1, rs)" using c1 by (rule checkCollisions_corner)
  have "\<forall>k<1000. isOccupied ?g2 (drawnX (width ?g2) rs k) (drawnY (height ?g2) rs k)"
    using c1 assms(4) by (simp add: cornerBoard_def isOccupied_def occupiedBy_def)
  then have "fst (getRandomFreePosition ?g2 rs) = Inl BoardFull"
    by (simp add: getRandomFreePosition_def loop_error_iff)
  then obtain rs1 where "getRandomFreePosition ?g2 rs = (Inl BoardFull, rs1)"
    by (cases "getRandomFreePosition ?g2 rs") auto
  then have "spawnBonusPair ?g2 rs = (Inl BoardFull, ?g2, rs1)"
    by (simp add: spawnBonusPair_def)
  moreover have "tickCount ?g2 mod TSI = 0"
    using c1 assms(2) by (simp add: cornerBoard_def)
  ultimately have "tick TSI ?g1 rs = (Inl BoardFull, ?g2, rs1)"
    using assms(3) by (simp add: tick_def Let_def)
  then show ?thesis by (simp add: step_def Let_def cc)
qed

lemma runSteps_up_idle:
  "cornerBoard g t \<Longrightarrow> 0 \<le> t \<Longrightarrow> t + int n < TSI \<Longrightarrow>
   \<exists>g'. runSteps TSI (replicate n ''up'') g rs = (Inr (), g', rs) \<and> cornerBoard g' (t + int n)"
proof (induction n arbitrary: g t)
  case 0
  then show ?case by simp
next
  case (Suc n)
  from step_up_idle [OF Suc.prems(1,2), of TSI rs] Suc.prems(3)
  obtain out g1 where s: "step TSI ''up'' g rs = (Inr out, g1, rs)" and c: "cornerBoard g1 (t + 1)"
    by auto
  from Suc.IH [OF c] Suc.prems(2,3)
  obtain g' where "runSteps TSI (replicate n ''up'') g1 rs = (Inr (), g', rs)"
    "cornerBoard g' (t + 1 + int n)" by auto
  moreover have "t + 1 + int n = t + int (Suc n)" by simp
  ultimately show ?case by (simp add: s del: of_nat_Suc)
qed

lemma cornerBoard_cornerGame: "cornerBoard cornerGame 0"
  by (simp add: cornerBoard_def cornerGame_def)

text \<open>
  C10.  \<open>step\<close> can throw in the middle of an episode.  On the 20 by 15 board, for
  every spawn interval: the constructor run on \<open>foodTape\<close> returns a game on which the
  first step, \<open>right\<close>, lands on the food and throws in the relocation of the food;
  and with the spawn interval \<open>n + 1\<close> the constructor run on \<open>spawnTape\<close> returns a
  game on which \<open>n\<close> steps \<open>up\<close> return and the next step throws in the spawn of the
  bonus pair.
\<close>

theorem step_not_total:
  "(\<exists>g rs. newGame 20 15 foodTape = (Inr g, rs)
        \<and> fst (step TICK_SPAWN_INTERVAL ''right'' g rs) = Inl BoardFull)
   \<and> (\<exists>g rs g' rs'. newGame 20 15 spawnTape = (Inr g, rs)
        \<and> runSteps (int (Suc n)) (replicate n ''up'') g rs = (Inr (), g', rs')
        \<and> fst (step (int (Suc n)) ''up'' g' rs') = Inl BoardFull)"
proof
  have "newGame 20 15 foodTape = (Inr cornerGame, skip 4 foodTape)"
    by (rule newGame_corner) (simp_all add: foodTape_def)
  then show "\<exists>g rs. newGame 20 15 foodTape = (Inr g, rs)
        \<and> fst (step TICK_SPAWN_INTERVAL ''right'' g rs) = Inl BoardFull"
    using step_right_cornerGame by blast
next
  let ?rs = "skip 4 spawnTape"
  have n: "newGame 20 15 spawnTape = (Inr cornerGame, ?rs)"
    by (rule newGame_corner) (simp_all add: spawnTape_def)
  from runSteps_up_idle [OF cornerBoard_cornerGame, of n "int (Suc n)" ?rs]
  obtain g' where r: "runSteps (int (Suc n)) (replicate n ''up'') cornerGame ?rs = (Inr (), g', ?rs)"
    and c: "cornerBoard g' (int n)" by auto
  have "\<forall>k<1000. drawnX 20 ?rs k = 0 \<and> drawnY 15 ?rs k = 0"
    by (simp add: drawnX_def drawnY_def skip_def spawnTape_def)
  with c have "fst (step (int (Suc n)) ''up'' g' ?rs) = Inl BoardFull"
    by (intro step_up_throws [of g' "int n"]) simp_all
  with n r show "\<exists>g rs g' rs'. newGame 20 15 spawnTape = (Inr g, rs)
        \<and> runSteps (int (Suc n)) (replicate n ''up'') g rs = (Inr (), g', rs')
        \<and> fst (step (int (Suc n)) ''up'' g' rs') = Inl BoardFull"
    by blast
qed

theorem step_not_total_witness:
  "(\<exists>g rs. newGame 20 15 foodTape = (Inr g, rs) \<and> fst (step 50 ''right'' g rs) = Inl BoardFull)
   \<and> (\<exists>g rs g' rs'. newGame 20 15 spawnTape = (Inr g, rs)
        \<and> runSteps 3 [''up'', ''up''] g rs = (Inr (), g', rs')
        \<and> fst (step 3 ''up'' g' rs') = Inl BoardFull)"
  using step_not_total [of 50 2] by (simp add: numeral_2_eq_2)

section \<open>The pattern penalties\<close>

lemma list_ex_atCell: "list_ex (atCell x y) ps \<longleftrightarrow> Pos x y \<in> set ps"
  by (force simp: list_ex_iff atCell_def)

lemma repeatPenalty_half_iff:
  assumes "10 \<le> length (moveHistory g)"
  shows "score (repeatPenalty g) = score g - 0.5 \<longleftrightarrow>
     3 \<le> length (remdups (sliceLast 10 (moveHistory g)))
     \<and> 8 \<le> length (filter (\<lambda>move. move = sliceLast 10 (moveHistory g) ! 0)
                      (sliceLast 10 (moveHistory g)))"
proof -
  have "sliceLast 10 (moveHistory g) \<noteq> []"
    using assms by (auto simp: sliceLast_def)
  then have "remdups (sliceLast 10 (moveHistory g)) \<noteq> []" by simp
  then have "length (remdups (sliceLast 10 (moveHistory g))) \<noteq> 0" by simp
  moreover define u where "u = length (remdups (sliceLast 10 (moveHistory g)))"
  ultimately have "u \<noteq> 0" by simp
  then have "(u \<noteq> 1 \<and> u \<noteq> 2) = (3 \<le> u)" by arith
  then show ?thesis
    unfolding repeatPenalty_def Let_def u_def [symmetric] using assms by auto
qed

lemma cross_9_7_free_row:
  "Pos 2 0 \<notin> set (dedupe (crossObstacles 9 7))" "Pos 3 0 \<notin> set (dedupe (crossObstacles 9 7))"
  "Pos 3 1 \<notin> set (dedupe (crossObstacles 9 7))"
  by (simp_all add: dedupe_def crossObstacles_def upto_rec1)

lemma newGame_start: "newGame 20 15 skewTape = (Inr startGame, skip 4 skewTape)"
proof -
  let ?obs = "dedupe (crossObstacles 9 7)"
  have d1: "drawnX 20 skewTape 0 = 3" "drawnY 15 skewTape 0 = 0"
    by (simp_all add: drawnX_def drawnY_def skewTape_def)
  have d2: "drawnX 20 (skip 2 skewTape) 0 = 1" "drawnY 15 (skip 2 skewTape) 0 = 0"
    by (simp_all add: drawnX_def drawnY_def skip_def skewTape_def)
  have 1: "freePositionLoop (occupiedBy None None ?obs [] []) 20 15 0 skewTape
      = (Inr (Pos 3 0), skip 2 skewTape)"
    using loop_unfold_free [of 0 "occupiedBy None None ?obs [] []" 20 skewTape 15]
      cross_9_7_free_row
    by (simp add: d1 occupiedBy_iff)
  have 2: "freePositionLoop (occupiedBy (Some (Pos 3 0)) None ?obs [] []) 20 15 0 (skip 2 skewTape)
       = (Inr (Pos 1 0), skip 4 skewTape)"
    using loop_unfold_free [of 0 "occupiedBy (Some (Pos 3 0)) None ?obs [] []" 20 "skip 2 skewTape" 15]
      cross_9_7_free
    by (simp add: d2 occupiedBy_iff skip_skip)
  show ?thesis
    by (simp add: newGame_def Let_def 1 2 startGame_def cornerGame_def)
qed

lemmas step_parts =
  step_def checkCollisions_def foodCollision_def greenLoop_done redLoop_done tick_def
  beforeCollisions_def Let_def movePlayer_def isWithinBounds_def list_ex_atCell
  pushHistory_def explorationBonus_def distanceShaping_def patternPenalties_def
  cyclePenalty_def repeatPenalty_def wallPenalty_def EXPLORATION_BONUS_def sliceLast_def

lemma startGame_run:
  "runSteps 50 [''down'', ''up'', ''up'', ''up'', ''up'', ''up'', ''up'', ''up'', ''up''] startGame rs
     = (Inr (), skewedGame, rs)"
  by (simp add: step_parts startGame_def cornerGame_def cross_9_7_free_row skewedGame_def
      insert_commute)

lemma skewedGame_step:
  "step 50 ''left'' skewedGame rs
     = (Inr (getState (skewedGame\<lparr>player := Pos 2 0, score := - 24.3, tickCount := 10,
               moveHistory := [''down'', ''up'', ''up'', ''up'', ''up'', ''up'', ''up'', ''up'',
                               ''up'', ''left''],
               visitedCells := {Pos 2 0, Pos 3 0, Pos 3 1}\<rparr>), 1.6, False),
        skewedGame\<lparr>player := Pos 2 0, score := - 24.3, tickCount := 10,
               moveHistory := [''down'', ''up'', ''up'', ''up'', ''up'', ''up'', ''up'', ''up'',
                               ''up'', ''left''],
               visitedCells := {Pos 2 0, Pos 3 0, Pos 3 1}\<rparr>,
        rs)"
  by (simp add: step_parts skewedGame_def cross_9_7_free_row getState_def)

text \<open>
  C2 (the code where it departs from the claim).  The constructor builds \<open>startGame\<close>
  from \<open>skewTape\<close>; nine steps (\<open>down\<close>, then eight times \<open>up\<close>) lead to
  \<open>skewedGame\<close>; the tenth step, \<open>left\<close>, enters a new cell one step nearer to the
  food.  Now \<open>up\<close> makes up 8 of the last 10 moves, the last 8 moves are not two equal
  halves, and the last 10 are neither all equal nor alternating.  The step returns the
  reward \<open>1.6\<close>: the exploration bonus and the shaping reward, and no penalty of 0.5.
\<close>

theorem dominant_move_not_penalised:
  "newGame 20 15 skewTape = (Inr startGame, skip 4 skewTape)
   \<and> runSteps 50 [''down'', ''up'', ''up'', ''up'', ''up'', ''up'', ''up'', ''up'', ''up'']
        startGame (skip 4 skewTape) = (Inr (), skewedGame, skip 4 skewTape)
   \<and> fst (step 50 ''left'' skewedGame (skip 4 skewTape))
        = Inr (getState (fst (snd (step 50 ''left'' skewedGame (skip 4 skewTape)))),
               EXPLORATION_BONUS + 1, False)
   \<and> moveHistory (fst (snd (step 50 ''left'' skewedGame (skip 4 skewTape))))
        = [''down'', ''up'', ''up'', ''up'', ''up'', ''up'', ''up'', ''up'', ''up'', ''left'']
   \<and> length (filter (\<lambda>move. move = ''up'')
        [''down'', ''up'', ''up'', ''up'', ''up'', ''up'', ''up'', ''up'', ''up'', ''left'']) = 8"
  by (simp add: newGame_start startGame_run skewedGame_step EXPLORATION_BONUS_def
      del: runSteps.simps)

section \<open>Pickups\<close>

lemma pos_eq_iff: "px p = px q \<and> py p = py q \<longleftrightarrow> q = p"
  by (cases p; cases q) auto

lemma spliceOne_nat: "i < length xs \<Longrightarrow> spliceOne (int i) xs = take i xs @ drop (Suc i) xs"
  by (simp add: spliceOne_def Let_def)

lemma greenLoop_eq:
  "i \<le> length (greenBlocks g) \<Longrightarrow>
   greenLoop i g rs =
     (g\<lparr>score := score g + 25 * of_nat (hits (player g) (drop i (greenBlocks g))),
        greenBlocksEaten := greenBlocksEaten g + int (hits (player g) (drop i (greenBlocks g))),
        greenBlocks := take i (greenBlocks g) @ filter (\<lambda>b. b \<noteq> player g) (drop i (greenBlocks g)),
        redBlocks := fst (removeRandomReds (hits (player g) (drop i (greenBlocks g))) (redBlocks g) rs)\<rparr>,
      snd (removeRandomReds (hits (player g) (drop i (greenBlocks g))) (redBlocks g) rs))"
proof (induction i g rs rule: greenLoop.induct)
  case (1 i g rs)
  show ?case
  proof (cases "i < length (greenBlocks g)")
    case False
    with "1.prems" have "i = length (greenBlocks g)" by simp
    then show ?thesis
      by (subst greenLoop.simps) (simp add: hits_def)
  next
    case True
    note lt = True
    have dr: "drop i (greenBlocks g) = greenBlocks g ! i # drop (Suc i) (greenBlocks g)"
      using lt by (simp add: Cons_nth_drop_Suc)
    show ?thesis
    proof (cases "greenBlocks g ! i = player g")
      case False
      then have ne: "\<not> (px (player g) = px (greenBlocks g ! i) \<and> py (player g) = py (greenBlocks g ! i))"
        by (simp add: pos_eq_iff)
      have IH: "greenLoop (i + 1) g rs =
     (g\<lparr>score := score g + 25 * of_nat (hits (player g) (drop (i + 1) (greenBlocks g))),
        greenBlocksEaten := greenBlocksEaten g + int (hits (player g) (drop (i + 1) (greenBlocks g))),
        greenBlocks := take (i + 1) (greenBlocks g) @ filter (\<lambda>b. b \<noteq> player g) (drop (i + 1) (greenBlocks g)),
        redBlocks := fst (removeRandomReds (hits (player g) (drop (i + 1) (greenBlocks g))) (redBlocks g) rs)\<rparr>,
      snd (removeRandomReds (hits (player g) (drop (i + 1) (greenBlocks g))) (redBlocks g) rs))"
        using lt ne by (intro "1.IH"(3)) auto
      have step: "greenLoop i g rs = greenLoop (i + 1) g rs"
        using lt False by (subst greenLoop.simps) (simp add: Let_def pos_eq_iff)
      show ?thesis
        unfolding step IH using False lt
        by (simp add: dr hits_def take_Suc_conv_app_nth)
    next
      case True
      then have eq: "px (player g) = px (greenBlocks g ! i) \<and> py (player g) = py (greenBlocks g ! i)"
        by (simp add: pos_eq_iff)
      let ?g1 = "g\<lparr>score := score g + 25, greenBlocksEaten := greenBlocksEaten g + 1,
                   greenBlocks := spliceOne (int i) (greenBlocks g)\<rparr>"
      have sp: "spliceOne (int i) (greenBlocks g) = take i (greenBlocks g) @ drop (Suc i) (greenBlocks g)"
        using lt by (rule spliceOne_nat)
      have dr1: "drop i (greenBlocks ?g1) = drop (Suc i) (greenBlocks g)"
        using lt by (simp add: sp)
      have tk1: "take i (greenBlocks ?g1) = take i (greenBlocks g)"
        using lt by (simp add: sp)
      have h: "hits (player g) (drop i (greenBlocks g)) = Suc (hits (player g) (drop (Suc i) (greenBlocks g)))"
        using True by (simp add: dr hits_def)
      have fl: "filter (\<lambda>b. b \<noteq> player g) (drop i (greenBlocks g))
          = filter (\<lambda>b. b \<noteq> player g) (drop (Suc i) (greenBlocks g))"
        using True by (simp add: dr)
      show ?thesis
      proof (cases "length (redBlocks g) > 0")
        case False
        have IH: "greenLoop i ?g1 rs =
     (?g1\<lparr>score := score ?g1 + 25 * of_nat (hits (player ?g1) (drop i (greenBlocks ?g1))),
        greenBlocksEaten := greenBlocksEaten ?g1 + int (hits (player ?g1) (drop i (greenBlocks ?g1))),
        greenBlocks := take i (greenBlocks ?g1) @ filter (\<lambda>b. b \<noteq> player ?g1) (drop i (greenBlocks ?g1)),
        redBlocks := fst (removeRandomReds (hits (player ?g1) (drop i (greenBlocks ?g1))) (redBlocks ?g1) rs)\<rparr>,
      snd (removeRandomReds (hits (player ?g1) (drop i (greenBlocks ?g1))) (redBlocks ?g1) rs))"
          using lt eq False by (intro "1.IH"(2)) (auto simp: sp)
        have step: "greenLoop i g rs = greenLoop i ?g1 rs"
          using lt eq False by (subst greenLoop.simps) (simp add: Let_def)
        show ?thesis
          unfolding step IH dr1 tk1 h fl using False
          by (simp add: algebra_simps)
      next
        case True
        let ?g2 = "?g1\<lparr>redBlocks := spliceOne \<lfloor>rs 0 * of_nat (length (redBlocks ?g1))\<rfloor> (redBlocks ?g1)\<rparr>"
        have IH: "greenLoop i ?g2 (skip 1 rs) =
     (?g2\<lparr>score := score ?g2 + 25 * of_nat (hits (player ?g2) (drop i (greenBlocks ?g2))),
        greenBlocksEaten := greenBlocksEaten ?g2 + int (hits (player ?g2) (drop i (greenBlocks ?g2))),
        greenBlocks := take i (greenBlocks ?g2) @ filter (\<lambda>b. b \<noteq> player ?g2) (drop i (greenBlocks ?g2)),
        redBlocks := fst (removeRandomReds (hits (player ?g2) (drop i (greenBlocks ?g2))) (redBlocks ?g2) (skip 1 rs))\<rparr>,
      snd (removeRandomReds (hits (player ?g2) (drop i (greenBlocks ?g2))) (redBlocks ?g2) (skip 1 rs)))"
          using lt eq True by (intro "1.IH"(1)) (auto simp: sp)
        have step: "greenLoop i g rs = greenLoop i ?g2 (skip 1 rs)"
          using lt eq True by (subst greenLoop.simps) (simp add: Let_def)
        have dr2: "drop i (greenBlocks ?g2) = drop (Suc i) (greenBlocks g)"
          using lt by (simp add: sp)
        have tk2: "take i (greenBlocks ?g2) = take i (greenBlocks g)"
          using lt by (simp add: sp)
        show ?thesis
          unfolding step IH dr2 tk2 h fl using True
          by (simp add: algebra_simps)
      qed
    qed
  qed
qed

lemma redLoop_eq:
  "i \<le> length (redBlocks g) \<Longrightarrow>
   redLoop i g =
     g\<lparr>score := score g - 20 * of_nat (hits (player g) (drop i (redBlocks g))),
       redBlocksEaten := redBlocksEaten g + int (hits (player g) (drop i (redBlocks g))),
       redBlocks := take i (redBlocks g) @ filter (\<lambda>b. b \<noteq> player g) (drop i (redBlocks g))\<rparr>"
proof (induction i g rule: redLoop.induct)
  case (1 i g)
  show ?case
  proof (cases "i < length (redBlocks g)")
    case False
    with "1.prems" have "i = length (redBlocks g)" by simp
    then show ?thesis
      by (subst redLoop.simps) (simp add: hits_def)
  next
    case True
    note lt = True
    have dr: "drop i (redBlocks g) = redBlocks g ! i # drop (Suc i) (redBlocks g)"
      using lt by (simp add: Cons_nth_drop_Suc)
    show ?thesis
    proof (cases "redBlocks g ! i = player g")
      case False
      have IH: "redLoop (i + 1) g =
     g\<lparr>score := score g - 20 * of_nat (hits (player g) (drop (i + 1) (redBlocks g))),
       redBlocksEaten := redBlocksEaten g + int (hits (player g) (drop (i + 1) (redBlocks g))),
       redBlocks := take (i + 1) (redBlocks g) @ filter (\<lambda>b. b \<noteq> player g) (drop (i + 1) (redBlocks g))\<rparr>"
        using lt False by (intro "1.IH"(2)) (auto simp: pos_eq_iff)
      have step: "redLoop i g = redLoop (i + 1) g"
        using lt False by (subst redLoop.simps) (simp add: Let_def pos_eq_iff)
      show ?thesis
        unfolding step IH using False lt
        by (simp add: dr hits_def take_Suc_conv_app_nth)
    next
      case True
      let ?g1 = "g\<lparr>score := score g - 20, redBlocksEaten := redBlocksEaten g + 1,
                   redBlocks := spliceOne (int i) (redBlocks g)\<rparr>"
      have sp: "spliceOne (int i) (redBlocks g) = take i (redBlocks g) @ drop (Suc i) (redBlocks g)"
        using lt by (rule spliceOne_nat)
      have dr1: "drop i (redBlocks ?g1) = drop (Suc i) (redBlocks g)"
        using lt by (simp add: sp)
      have tk1: "take i (redBlocks ?g1) = take i (redBlocks g)"
        using lt by (simp add: sp)
      have h: "hits (player g) (drop i (redBlocks g)) = Suc (hits (player g) (drop (Suc i) (redBlocks g)))"
        using True by (simp add: dr hits_def)
      have fl: "filter (\<lambda>b. b \<noteq> player g) (drop i (redBlocks g))
          = filter (\<lambda>b. b \<noteq> player g) (drop (Suc i) (redBlocks g))"
        using True by (simp add: dr)
      have IH: "redLoop i ?g1 =
     ?g1\<lparr>score := score ?g1 - 20 * of_nat (hits (player ?g1) (drop i (redBlocks ?g1))),
       redBlocksEaten := redBlocksEaten ?g1 + int (hits (player ?g1) (drop i (redBlocks ?g1))),
       redBlocks := take i (redBlocks ?g1) @ filter (\<lambda>b. b \<noteq> player ?g1) (drop i (redBlocks ?g1))\<rparr>"
        using lt True by (intro "1.IH"(1)) (auto simp: sp pos_eq_iff)
      have step: "redLoop i g = redLoop i ?g1"
        using lt True by (subst redLoop.simps) (simp add: Let_def pos_eq_iff)
      show ?thesis
        unfolding step IH dr1 tk1 h fl
        by (simp add: algebra_simps)
    qed
  qed
qed

lemma length_spliceOne:
  "0 \<le> i \<Longrightarrow> i < int (length xs) \<Longrightarrow> length (spliceOne i xs) = length xs - 1"
  by (auto simp: spliceOne_def Let_def)

lemma set_spliceOne: "set (spliceOne i xs) \<subseteq> set xs"
  by (auto simp: spliceOne_def Let_def dest: in_set_takeD in_set_dropD)

lemma removeRandomReds_subset: "set (fst (removeRandomReds c reds rs)) \<subseteq> set reds"
proof (induction c arbitrary: reds rs)
  case 0
  then show ?case by simp
next
  case (Suc c)
  show ?case
    using Suc.IH [of "spliceOne \<lfloor>rs 0 * of_nat (length reds)\<rfloor> reds" "skip 1 rs"] Suc.IH [of reds rs]
      set_spliceOne [of "\<lfloor>rs 0 * of_nat (length reds)\<rfloor>" reds]
    by auto
qed

lemma floor_index_bounds:
  assumes "0 \<le> r" "r < 1" "0 < n"
  shows "0 \<le> \<lfloor>r * of_nat n\<rfloor> \<and> \<lfloor>r * of_nat n\<rfloor> < int n"
  using floor_unit_bounds [OF assms(1,2), of "int n"] assms(3) by simp

lemma removeRandomReds_length:
  "unitTape rs \<Longrightarrow> length (fst (removeRandomReds c reds rs)) = length reds - c"
proof (induction c arbitrary: reds rs)
  case 0
  then show ?case by simp
next
  case (Suc c)
  show ?case
  proof (cases "length reds > 0")
    case False
    then show ?thesis using Suc.IH [OF Suc.prems, of reds] by simp
  next
    case True
    have b: "0 \<le> \<lfloor>rs 0 * of_nat (length reds)\<rfloor> \<and> \<lfloor>rs 0 * of_nat (length reds)\<rfloor> < int (length reds)"
      using Suc.prems True by (intro floor_index_bounds) (auto simp: unitTape_def)
    have "length (spliceOne \<lfloor>rs 0 * of_nat (length reds)\<rfloor> reds) = length reds - 1"
      using b by (intro length_spliceOne) auto
    then show ?thesis
      using True Suc.IH [OF unitTape_skip [OF Suc.prems, of 1], of "spliceOne \<lfloor>rs 0 * of_nat (length reds)\<rfloor> reds"]
      by simp
  qed
qed

lemma blocks_closed_form:
  assumes "greenLoop 0 g rs = (g2, rs2)"
  shows "rs2 = snd (removeRandomReds (hits (player g) (greenBlocks g)) (redBlocks g) rs)"
    and "redLoop 0 g2 =
      g\<lparr>score := score g + 25 * of_nat (hits (player g) (greenBlocks g))
             - 20 * of_nat (hits (player g)
                 (fst (removeRandomReds (hits (player g) (greenBlocks g)) (redBlocks g) rs))),
        greenBlocksEaten := greenBlocksEaten g + int (hits (player g) (greenBlocks g)),
        greenBlocks := filter (\<lambda>b. b \<noteq> player g) (greenBlocks g),
        redBlocksEaten := redBlocksEaten g + int (hits (player g)
                 (fst (removeRandomReds (hits (player g) (greenBlocks g)) (redBlocks g) rs))),
        redBlocks := filter (\<lambda>b. b \<noteq> player g)
                 (fst (removeRandomReds (hits (player g) (greenBlocks g)) (redBlocks g) rs))\<rparr>"
proof -
  let ?c = "hits (player g) (greenBlocks g)"
  let ?r = "removeRandomReds ?c (redBlocks g) rs"
  have g2: "g2 = g\<lparr>score := score g + 25 * of_nat ?c,
        greenBlocksEaten := greenBlocksEaten g + int ?c,
        greenBlocks := filter (\<lambda>b. b \<noteq> player g) (greenBlocks g),
        redBlocks := fst ?r\<rparr>" and rs2: "rs2 = snd ?r"
    using assms greenLoop_eq [of 0 g rs] by simp_all
  show "rs2 = snd ?r" by (rule rs2)
  show "redLoop 0 g2 =
      g\<lparr>score := score g + 25 * of_nat ?c - 20 * of_nat (hits (player g) (fst ?r)),
        greenBlocksEaten := greenBlocksEaten g + int ?c,
        greenBlocks := filter (\<lambda>b. b \<noteq> player g) (greenBlocks g),
        redBlocksEaten := redBlocksEaten g + int (hits (player g) (fst ?r)),
        redBlocks := filter (\<lambda>b. b \<noteq> player g) (fst ?r)\<rparr>"
    using redLoop_eq [of 0 g2] by (simp add: g2)
qed

lemma foodCollision_miss:
  "player g \<noteq> food g \<Longrightarrow> foodCollision g rs = (Inr (), g, rs)"
  using pos_eq_iff [of "player g" "food g"] by (auto simp: foodCollision_def)

lemma foodCollision_hit:
  assumes "player g = food g"
  shows "foodCollision g rs =
    (case getRandomFreePosition (g\<lparr>score := score g + 40, foodEaten := foodEaten g + 1\<rparr>) rs of
       (Inl e, rs1) \<Rightarrow> (Inl e, g\<lparr>score := score g + 40, foodEaten := foodEaten g + 1\<rparr>, rs1)
     | (Inr p, rs1) \<Rightarrow> (Inr (), g\<lparr>score := score g + 40, foodEaten := foodEaten g + 1, food := p\<rparr>, rs1))"
  using assms by (simp add: foodCollision_def Let_def)

lemma isOccupied_score_food:
  "isOccupied (g\<lparr>score := s, foodEaten := n\<rparr>) x y = isOccupied g x y"
  by (simp add: isOccupied_def)

lemma checkCollisions_blocks:
  assumes "foodCollision g rs = (Inr (), gF, rsF)"
  shows "checkCollisions g rs =
    (Inr (),
     gF\<lparr>score := score gF + 25 * of_nat (hits (player gF) (greenBlocks gF))
             - 20 * of_nat (hits (player gF)
                 (fst (removeRandomReds (hits (player gF) (greenBlocks gF)) (redBlocks gF) rsF))),
        greenBlocksEaten := greenBlocksEaten gF + int (hits (player gF) (greenBlocks gF)),
        greenBlocks := filter (\<lambda>b. b \<noteq> player gF) (greenBlocks gF),
        redBlocksEaten := redBlocksEaten gF + int (hits (player gF)
                 (fst (removeRandomReds (hits (player gF) (greenBlocks gF)) (redBlocks gF) rsF))),
        redBlocks := filter (\<lambda>b. b \<noteq> player gF)
                 (fst (removeRandomReds (hits (player gF) (greenBlocks gF)) (redBlocks gF) rsF))\<rparr>,
     snd (removeRandomReds (hits (player gF) (greenBlocks gF)) (redBlocks gF) rsF))"
proof -
  obtain g2 rs2 where gl: "greenLoop 0 gF rsF = (g2, rs2)" by (cases "greenLoop 0 gF rsF")
  have "checkCollisions g rs = (Inr (), redLoop 0 g2, rs2)"
    by (simp add: checkCollisions_def assms gl)
  then show ?thesis
    using blocks_closed_form [OF gl] by simp
qed

lemma checkCollisions_throw:
  assumes "checkCollisions g rs = (Inl e, g', rs')"
  shows "player g = food g \<and> g' = g\<lparr>score := score g + 40, foodEaten := foodEaten g + 1\<rparr>"
proof -
  obtain r gF rsF where f: "foodCollision g rs = (r, gF, rsF)" by (cases "foodCollision g rs")
  obtain g2 rs2 where gl: "greenLoop 0 gF rsF = (g2, rs2)" by (cases "greenLoop 0 gF rsF")
  from assms f gl have r: "r = Inl e" and g': "g' = gF"
    by (cases r; simp add: checkCollisions_def)+
  have hit: "player g = food g"
    using f r foodCollision_miss [of g rs] by auto
  obtain q rs1 where p: "getRandomFreePosition (g\<lparr>score := score g + 40, foodEaten := foodEaten g + 1\<rparr>) rs = (q, rs1)"
    by (cases "getRandomFreePosition (g\<lparr>score := score g + 40, foodEaten := foodEaten g + 1\<rparr>) rs")
  from f r have "gF = g\<lparr>score := score g + 40, foodEaten := foodEaten g + 1\<rparr>"
    unfolding foodCollision_hit [OF hit] p by (cases q) simp_all
  with hit g' show ?thesis by simp
qed

lemma checkCollisions_return:
  assumes "checkCollisions g rs = (Inr (), g', rs')"
  shows "\<exists>rsF reds1.
      (if player g = food g
       then getRandomFreePosition (g\<lparr>score := score g + 40, foodEaten := foodEaten g + 1\<rparr>) rs
              = (Inr (food g'), rsF)
            \<and> \<not> isOccupied g (px (food g')) (py (food g'))
            \<and> foodEaten g' = foodEaten g + 1
       else rsF = rs \<and> food g' = food g \<and> foodEaten g' = foodEaten g)
      \<and> removeRandomReds (hits (player g) (greenBlocks g)) (redBlocks g) rsF = (reds1, rs')
      \<and> greenBlocks g' = filter (\<lambda>b. b \<noteq> player g) (greenBlocks g)
      \<and> greenBlocksEaten g' = greenBlocksEaten g + int (hits (player g) (greenBlocks g))
      \<and> redBlocks g' = filter (\<lambda>b. b \<noteq> player g) reds1
      \<and> redBlocksEaten g' = redBlocksEaten g + int (hits (player g) reds1)
      \<and> score g' = score g + (if player g = food g then 40 else 0)
            + 25 * of_nat (hits (player g) (greenBlocks g)) - 20 * of_nat (hits (player g) reds1)"
proof (cases "player g = food g")
  case False
  have f: "foodCollision g rs = (Inr (), g, rs)" using False by (rule foodCollision_miss)
  let ?r = "removeRandomReds (hits (player g) (greenBlocks g)) (redBlocks g) rs"
  from assms checkCollisions_blocks [OF f]
  have "rs' = snd ?r" and "g' = g\<lparr>score := score g + 25 * of_nat (hits (player g) (greenBlocks g))
             - 20 * of_nat (hits (player g) (fst ?r)),
        greenBlocksEaten := greenBlocksEaten g + int (hits (player g) (greenBlocks g)),
        greenBlocks := filter (\<lambda>b. b \<noteq> player g) (greenBlocks g),
        redBlocksEaten := redBlocksEaten g + int (hits (player g) (fst ?r)),
        redBlocks := filter (\<lambda>b. b \<noteq> player g) (fst ?r)\<rparr>"
    by simp_all
  then show ?thesis
    using False by (intro exI [of _ rs] exI [of _ "fst ?r"]) simp
next
  case True
  let ?g1 = "g\<lparr>score := score g + 40, foodEaten := foodEaten g + 1\<rparr>"
  obtain q rsF where p: "getRandomFreePosition ?g1 rs = (q, rsF)"
    by (cases "getRandomFreePosition ?g1 rs")
  show ?thesis
  proof (cases q)
    case (Inl e)
    then have "foodCollision g rs = (Inl e, ?g1, rsF)"
      unfolding foodCollision_hit [OF True] p by simp
    then have "checkCollisions g rs = (Inl e, ?g1, rsF)" by (simp add: checkCollisions_def)
    with assms show ?thesis by simp
  next
    case (Inr fo)
    let ?gF = "?g1\<lparr>food := fo\<rparr>"
    have f: "foodCollision g rs = (Inr (), ?gF, rsF)"
      unfolding foodCollision_hit [OF True] p Inr by simp
    have free: "\<not> isOccupied g (px fo) (py fo)"
      using loop_success(1) [OF p [unfolded Inr getRandomFreePosition_def]]
      by (simp add: isOccupied_def)
    let ?r = "removeRandomReds (hits (player g) (greenBlocks g)) (redBlocks g) rsF"
    from assms checkCollisions_blocks [OF f]
    have "rs' = snd ?r" and "g' = ?gF\<lparr>score := score g + 40 + 25 * of_nat (hits (player g) (greenBlocks g))
             - 20 * of_nat (hits (player g) (fst ?r)),
        greenBlocksEaten := greenBlocksEaten g + int (hits (player g) (greenBlocks g)),
        greenBlocks := filter (\<lambda>b. b \<noteq> player g) (greenBlocks g),
        redBlocksEaten := redBlocksEaten g + int (hits (player g) (fst ?r)),
        redBlocks := filter (\<lambda>b. b \<noteq> player g) (fst ?r)\<rparr>"
      by simp_all
    then show ?thesis
      using True free p Inr by (intro exI [of _ rsF] exI [of _ "fst ?r"]) simp
  qed
qed

lemma hits_distinct: "distinct bs \<Longrightarrow> hits p bs = (if p \<in> set bs then 1 else 0)"
  by (induction bs) (auto simp: hits_def)

lemma hits_absent: "p \<notin> set bs \<Longrightarrow> hits p bs = 0"
  by (induction bs) (auto simp: hits_def)

lemma filter_distinct_remove1: "distinct bs \<Longrightarrow> filter (\<lambda>b. b \<noteq> p) bs = remove1 p bs"
  by (induction bs) (auto simp: remove1_idem)

lemma filter_absent: "p \<notin> set bs \<Longrightarrow> filter (\<lambda>b. b \<noteq> p) bs = bs"
  by (rule filter_True) auto

lemma distinct_spliceOne: "distinct xs \<Longrightarrow> distinct (spliceOne i xs)"
proof -
  assume d: "distinct xs"
  have "distinct (take a xs @ drop (a + 1) xs)" for a
  proof -
    have "distinct (take a xs @ drop a xs)" using d by simp
    then have "distinct (take a xs)" "set (take a xs) \<inter> set (drop a xs) = {}"
      by (simp_all only: distinct_append)
    moreover have "distinct (drop (a + 1) xs)" using d by simp
    moreover have "set (drop (a + 1) xs) \<subseteq> set (drop a xs)"
      by (metis add.commute drop_drop set_drop_subset)
    ultimately show ?thesis by (auto simp only: distinct_append)
  qed
  then show ?thesis by (simp add: spliceOne_def Let_def)
qed

lemma removeRandomReds_distinct:
  "distinct reds \<Longrightarrow> distinct (fst (removeRandomReds c reds rs))"
  by (induction c arbitrary: reds rs) (simp_all add: distinct_spliceOne)

lemma removeRandomReds_one:
  "removeRandomReds (Suc 0) reds rs =
     (if reds = [] then ([], rs)
      else (spliceOne \<lfloor>rs 0 * of_nat (length reds)\<rfloor> reds, skip 1 rs))"
  by simp


lemma checkCollisions_distinct:
  assumes d: "distinct (greenBlocks g @ redBlocks g)"
    and c: "checkCollisions g rs = (Inr (), g', rs')"
  shows "\<exists>rsF.
        (if player g = food g
         then getRandomFreePosition (g\<lparr>score := score g + 40, foodEaten := foodEaten g + 1\<rparr>) rs
                = (Inr (food g'), rsF)
              \<and> \<not> isOccupied g (px (food g')) (py (food g'))
              \<and> food g' \<noteq> food g
         else rsF = rs \<and> food g' = food g)
        \<and> foodEaten g' = foodEaten g + (if player g = food g then 1 else 0)
        \<and> greenBlocks g' = remove1 (player g) (greenBlocks g)
        \<and> greenBlocksEaten g' = greenBlocksEaten g + (if player g \<in> set (greenBlocks g) then 1 else 0)
        \<and> redBlocks g' =
            (if player g \<in> set (greenBlocks g)
             then (if redBlocks g = [] then []
                   else spliceOne \<lfloor>rsF 0 * of_nat (length (redBlocks g))\<rfloor> (redBlocks g))
             else remove1 (player g) (redBlocks g))
        \<and> redBlocksEaten g' = redBlocksEaten g + (if player g \<in> set (redBlocks g) then 1 else 0)
        \<and> score g' = score g + (if player g = food g then 40 else 0)
              + (if player g \<in> set (greenBlocks g) then 25 else 0)
              - (if player g \<in> set (redBlocks g) then 20 else 0)
        \<and> rs' = (if player g \<in> set (greenBlocks g) \<and> redBlocks g \<noteq> [] then skip 1 rsF else rsF)
        \<and> distinct (greenBlocks g' @ redBlocks g')"
proof -
  let ?P = "player g"
  from checkCollisions_return [OF c] obtain rsF reds1 where
    food: "if ?P = food g
         then getRandomFreePosition (g\<lparr>score := score g + 40, foodEaten := foodEaten g + 1\<rparr>) rs
                = (Inr (food g'), rsF)
              \<and> \<not> isOccupied g (px (food g')) (py (food g'))
              \<and> foodEaten g' = foodEaten g + 1
         else rsF = rs \<and> food g' = food g \<and> foodEaten g' = foodEaten g"
    and rr: "removeRandomReds (hits ?P (greenBlocks g)) (redBlocks g) rsF = (reds1, rs')"
    and gb: "greenBlocks g' = filter (\<lambda>b. b \<noteq> ?P) (greenBlocks g)"
    and ge: "greenBlocksEaten g' = greenBlocksEaten g + int (hits ?P (greenBlocks g))"
    and rb: "redBlocks g' = filter (\<lambda>b. b \<noteq> ?P) reds1"
    and re: "redBlocksEaten g' = redBlocksEaten g + int (hits ?P reds1)"
    and sc: "score g' = score g + (if ?P = food g then 40 else 0)
              + 25 * of_nat (hits ?P (greenBlocks g)) - 20 * of_nat (hits ?P reds1)"
    by blast
  from d have dg: "distinct (greenBlocks g)" and dr: "distinct (redBlocks g)"
    and dis: "set (greenBlocks g) \<inter> set (redBlocks g) = {}"
    by simp_all
  have sub: "set reds1 \<subseteq> set (redBlocks g)"
    using removeRandomReds_subset [of "hits ?P (greenBlocks g)" "redBlocks g" rsF] rr by simp
  have d1: "distinct reds1"
    using removeRandomReds_distinct [OF dr, of "hits ?P (greenBlocks g)" rsF] rr by simp
  have F: "if ?P = food g
         then getRandomFreePosition (g\<lparr>score := score g + 40, foodEaten := foodEaten g + 1\<rparr>) rs
                = (Inr (food g'), rsF)
              \<and> \<not> isOccupied g (px (food g')) (py (food g'))
              \<and> food g' \<noteq> food g
         else rsF = rs \<and> food g' = food g"
  proof (cases "?P = food g")
    case True
    with food have no: "\<not> isOccupied g (px (food g')) (py (food g'))" by simp
    have "food g' \<noteq> ?P"
      using no unfolding isOccupied_def occupiedBy_iff by auto
    with True food show ?thesis by simp
  next
    case False
    with food show ?thesis by simp
  qed
  have FE: "foodEaten g' = foodEaten g + (if ?P = food g then 1 else 0)"
    using food by (simp split: if_splits)
  have DD: "distinct (greenBlocks g' @ redBlocks g')"
    using dg d1 dis sub by (auto simp: gb rb)
  show ?thesis
  proof (cases "?P \<in> set (greenBlocks g)")
    case True
    then have h: "hits ?P (greenBlocks g) = Suc 0" using dg by (simp add: hits_distinct)
    from True dis have nr: "?P \<notin> set (redBlocks g)" by auto
    with sub have nr1: "?P \<notin> set reds1" by auto
    from rr have r1: "reds1 = (if redBlocks g = [] then []
                   else spliceOne \<lfloor>rsF 0 * of_nat (length (redBlocks g))\<rfloor> (redBlocks g))"
      and t1: "rs' = (if redBlocks g \<noteq> [] then skip 1 rsF else rsF)"
      unfolding h removeRandomReds_one by (simp_all split: if_splits)
    have rb': "redBlocks g' = reds1" using rb by (simp only: filter_absent [OF nr1])
    have re': "redBlocksEaten g' = redBlocksEaten g" using re by (simp add: hits_absent [OF nr1])
    have sc': "score g' = score g + (if ?P = food g then 40 else 0) + 25"
      using sc by (simp add: hits_absent [OF nr1] h)
    have gb': "greenBlocks g' = remove1 ?P (greenBlocks g)"
      using gb by (simp only: filter_distinct_remove1 [OF dg])
    have ge': "greenBlocksEaten g' = greenBlocksEaten g + 1" using ge by (simp add: h)
    show ?thesis
      using F FE DD True nr gb' ge' rb' re' sc' t1
      by (intro exI [of _ rsF]) (simp add: r1)
  next
    case False
    then have h: "hits ?P (greenBlocks g) = 0" by (simp add: hits_absent)
    from rr have r1: "reds1 = redBlocks g" and t1: "rs' = rsF" unfolding h by simp_all
    show ?thesis
      using F FE DD False gb ge rb re sc t1
      by (intro exI [of _ rsF])
         (simp add: h r1 hits_distinct [OF dr] filter_distinct_remove1 [OF dr]
            filter_distinct_remove1 [OF dg])
  qed
qed


lemma placement_off_blocks:
  assumes "getRandomFreePosition g rs = (Inr p, rs')"
  shows "p \<notin> set (redBlocks g)" "p \<notin> set (greenBlocks g)"
proof -
  have "\<not> isOccupied g (px p) (py p)"
    by (rule loop_success(1) [OF assms [unfolded getRandomFreePosition_def]])
  then have "Pos (px p) (py p) \<notin> set (redBlocks g) \<and> Pos (px p) (py p) \<notin> set (greenBlocks g)"
    unfolding isOccupied_def occupiedBy_iff by simp
  then show "p \<notin> set (redBlocks g)" "p \<notin> set (greenBlocks g)" by simp_all
qed

lemma spawnBonusPair_distinct:
  assumes "distinct (greenBlocks g @ redBlocks g)"
  shows "distinct (greenBlocks (fst (snd (spawnBonusPair g rs)))
                   @ redBlocks (fst (snd (spawnBonusPair g rs))))"
proof -
  obtain r1 rs1 where p1: "getRandomFreePosition g rs = (r1, rs1)"
    by (cases "getRandomFreePosition g rs")
  show ?thesis
  proof (cases r1)
    case (Inl e)
    then show ?thesis using assms p1 by (simp add: spawnBonusPair_def)
  next
    case (Inr redPos)
    let ?g1 = "g\<lparr>redBlocks := redBlocks g @ [redPos]\<rparr>"
    have off1: "redPos \<notin> set (redBlocks g)" "redPos \<notin> set (greenBlocks g)"
      using placement_off_blocks [of g rs redPos rs1] p1 Inr by simp_all
    have d1: "distinct (greenBlocks ?g1 @ redBlocks ?g1)"
      using assms off1 by auto
    obtain r2 rs2 where p2: "getRandomFreePosition ?g1 rs1 = (r2, rs2)"
      by (cases "getRandomFreePosition ?g1 rs1")
    show ?thesis
    proof (cases r2)
      case (Inl e)
      then show ?thesis using d1 p1 p2 \<open>r1 = Inr redPos\<close> by (simp add: spawnBonusPair_def Let_def)
    next
      case (Inr greenPos)
      have off2: "greenPos \<notin> set (redBlocks ?g1)" "greenPos \<notin> set (greenBlocks ?g1)"
        using placement_off_blocks [of ?g1 rs1 greenPos rs2] p2 Inr by simp_all
      have "fst (snd (spawnBonusPair g rs)) = ?g1\<lparr>greenBlocks := greenBlocks ?g1 @ [greenPos]\<rparr>"
        using p1 p2 Inr \<open>r1 = Inr redPos\<close> by (simp add: spawnBonusPair_def Let_def)
      then show ?thesis using d1 off2 by auto
    qed
  qed
qed

lemma tick_distinct:
  assumes "distinct (greenBlocks g @ redBlocks g)"
  shows "distinct (greenBlocks (fst (snd (tick TSI g rs))) @ redBlocks (fst (snd (tick TSI g rs))))"
  using assms spawnBonusPair_distinct [of "g\<lparr>tickCount := tickCount g + 1\<rparr>" rs]
  by (simp add: tick_def Let_def)

lemma checkCollisions_keeps_distinct:
  assumes "distinct (greenBlocks g @ redBlocks g)"
  shows "distinct (greenBlocks (fst (snd (checkCollisions g rs)))
                   @ redBlocks (fst (snd (checkCollisions g rs))))"
proof -
  obtain r g' rs' where c: "checkCollisions g rs = (r, g', rs')"
    by (cases "checkCollisions g rs")
  show ?thesis
  proof (cases r)
    case (Inl e)
    with checkCollisions_throw [of g rs e g' rs'] c assms show ?thesis by simp
  next
    case (Inr u)
    with checkCollisions_distinct [OF assms, of rs g' rs'] c show ?thesis by auto
  qed
qed

lemma step_distinct:
  assumes "distinct (greenBlocks g @ redBlocks g)"
  shows "distinct (greenBlocks (fst (snd (step TSI act g rs)))
                   @ redBlocks (fst (snd (step TSI act g rs))))"
proof -
  define g1 where "g1 = beforeCollisions act g"
  obtain r2 g2 rs2 where c: "checkCollisions g1 rs = (r2, g2, rs2)"
    by (cases "checkCollisions g1 rs")
  obtain r3 g3 rs3 where t: "tick TSI g2 rs2 = (r3, g3, rs3)"
    by (cases "tick TSI g2 rs2")
  have d1: "distinct (greenBlocks g1 @ redBlocks g1)"
    using assms by (simp only: g1_def beforeCollisions_items)
  have d2: "distinct (greenBlocks g2 @ redBlocks g2)"
    using checkCollisions_keeps_distinct [OF d1, of rs] c by simp
  have d3: "distinct (greenBlocks g3 @ redBlocks g3)"
    using tick_distinct [OF d2, of TSI rs2] t by simp
  have "fst (snd (step TSI act g rs)) = g2 \<or> fst (snd (step TSI act g rs)) = g3"
    using c t by (cases r2; cases r3) (simp_all add: step_def Let_def g1_def)
  then show ?thesis using d2 d3 by auto
qed

lemma newGame_blocks:
  assumes "newGame w h rs = (Inr g, rs')"
  shows "greenBlocks g = []" "redBlocks g = []"
  using assms by (auto simp: newGame_def Let_def split: prod.splits sum.splits)

lemma reset_distinct:
  assumes "distinct (greenBlocks g @ redBlocks g)"
  shows "distinct (greenBlocks (fst (snd (reset g rs))) @ redBlocks (fst (snd (reset g rs))))"
  using assms by (auto simp: reset_def Let_def split: prod.splits sum.splits)

lemma setObstaclePattern_blocks:
  "greenBlocks (setObstaclePattern pattern g) = greenBlocks g"
  "redBlocks (setObstaclePattern pattern g) = redBlocks g"
  by (simp_all add: setObstaclePattern_def Let_def)

lemma reachable_blocks_distinct:
  "reachable g \<Longrightarrow> distinct (greenBlocks g @ redBlocks g)"
proof (induction rule: reachable.induct)
  case (constructed w h rs g rs')
  then show ?case by (simp add: newGame_blocks)
next
  case (stepped g TSI act rs)
  from stepped.IH show ?case by (rule step_distinct)
next
  case (resetted g rs)
  from resetted.IH show ?case by (rule reset_distinct)
next
  case (patterned g pattern)
  from patterned.IH show ?case by (simp only: setObstaclePattern_blocks)
next
  case (moved g direction)
  from moved.IH show ?case by (simp only: movePlayer_items)
next
  case (collided g rs)
  from collided.IH show ?case by (rule checkCollisions_keeps_distinct)
next
  case (ticked g TSI rs)
  from ticked.IH show ?case by (rule tick_distinct)
next
  case (spawned g rs)
  from spawned.IH show ?case by (rule spawnBonusPair_distinct)
qed






section \<open>The hybrid sampler\<close>

lemma uniformLoop_Suc:
  "uniformLoop (Suc n) buffer rs =
     (jsIndex buffer \<lfloor>rs 0 * of_nat (length buffer)\<rfloor> # fst (uniformLoop n buffer (skip 1 rs)),
      snd (uniformLoop n buffer (skip 1 rs)))"
  by (simp add: Let_def case_prod_beta)

lemma prioritizedLoop_Suc:
  "prioritizedLoop ar (Suc n) buffer effs t rs =
     ((case roulettePick ar effs t (rs 0) of
         Some j \<Rightarrow> [jsIndex buffer (int j)] | None \<Rightarrow> [])
        @ fst (prioritizedLoop ar n buffer effs t (skip 1 rs)),
      snd (prioritizedLoop ar n buffer effs t (skip 1 rs)))"
  by (simp add: Let_def case_prod_beta split: option.splits)

declare uniformLoop.simps(2) [simp del] prioritizedLoop.simps(2) [simp del]

lemma uniformLoop_length: "length (fst (uniformLoop n buffer rs)) = n"
  by (induction n arbitrary: rs) (simp_all add: uniformLoop_Suc)

lemma uniformLoop_tape: "snd (uniformLoop n buffer rs) = skip n rs"
proof (induction n arbitrary: rs)
  case 0
  then show ?case by (simp add: skip_0)
next
  case (Suc n)
  from Suc.IH [of "skip 1 rs"] show ?case
    by (simp add: uniformLoop_Suc skip_skip)
qed






lemma map_filter_map: "List.map_filter f (map g xs) = List.map_filter (f \<circ> g) xs"
  by (induction xs) (simp_all add: List.map_filter_simps split: option.splits)

lemma length_map_filter:
  "length (List.map_filter f xs) = length (filter (\<lambda>x. f x \<noteq> None) xs)"
  by (induction xs) (simp_all add: List.map_filter_simps split: option.splits)

lemma prioritizedLoop_eq:
  "fst (prioritizedLoop ar n buffer effs t rs)
     = map (\<lambda>j. jsIndex buffer (int j))
         (List.map_filter (\<lambda>i. roulettePick ar effs t (rs i)) [0..<n])"
proof (induction n arbitrary: rs)
  case 0
  then show ?case by (simp add: List.map_filter_simps)
next
  case (Suc n)
  have u: "[0..<Suc n] = 0 # map Suc [0..<n]"
    by (simp add: upt_conv_Cons map_Suc_upt del: upt_Suc)
  have "List.map_filter (\<lambda>i. roulettePick ar effs t (rs i)) (map Suc [0..<n])
      = List.map_filter (\<lambda>i. roulettePick ar effs t (skip 1 rs i)) [0..<n]"
    by (simp add: map_filter_map comp_def skip_def)
  then show ?case
    unfolding u by (simp add: prioritizedLoop_Suc Suc.IH List.map_filter_simps split: option.splits)
qed




lemma sample_long:
  "n \<le> length buffer \<Longrightarrow>
   fst (sampleEnhancedBatch ar buffer n rs) =
     fst (uniformLoop (n div 2) buffer rs)
     @ fst (prioritizedLoop ar (n div 2) buffer (effectivePriorities ar buffer)
              (totalOf ar (effectivePriorities ar buffer)) (skip (n div 2) rs))"
  using uniformLoop_tape [of "n div 2" buffer rs]
  by (simp add: sampleEnhancedBatch_def Let_def case_prod_beta)



lemma sample_length:
  assumes "n \<le> length buffer"
  shows "length (fst (sampleEnhancedBatch ar buffer n rs))
     = n div 2 + length (filter
            (\<lambda>i. roulettePick ar (effectivePriorities ar buffer)
                    (totalOf ar (effectivePriorities ar buffer)) (rs (n div 2 + i)) \<noteq> None)
            [0..<n div 2])"
  by (simp add: sample_long [OF assms] uniformLoop_length prioritizedLoop_eq skip_def add.commute
      length_map_filter)




lemma rouletteScan_None_iff:
  "rouletteScan ar r t ps c j = None \<longleftrightarrow>
     (\<forall>i<length ps.
        \<not> r < foldl (\<lambda>cumulative p. rounded ar (cumulative + rounded ar (p / t))) c (take (Suc i) ps))"
proof (induction ps arbitrary: c j)
  case Nil
  then show ?case by simp
next
  case (Cons p ps)
  let ?F = "foldl (\<lambda>cumulative p. rounded ar (cumulative + rounded ar (p / t)))"
  let ?c = "rounded ar (c + rounded ar (p / t))"
  have F: "?F c (take (Suc i) (p # ps)) = ?F ?c (take i ps)" for i by simp
  have all: "(\<forall>i<length (p # ps). \<not> r < ?F c (take (Suc i) (p # ps)))
      \<longleftrightarrow> \<not> r < ?c \<and> (\<forall>i<length ps. \<not> r < ?F ?c (take (Suc i) ps))"
    unfolding F by (auto simp: less_Suc_eq_0_disj)
  show ?case
  proof (cases "r < ?c")
    case True
    then show ?thesis unfolding all by simp
  next
    case False
    then show ?thesis unfolding all using Cons.IH [of ?c "j + 1"] by simp
  qed
qed


lemma roulettePick_None_iff:
  "t \<noteq> 0 \<Longrightarrow>
   roulettePick ar effs t r = None \<longleftrightarrow> (\<forall>m<length effs. \<not> r < runningSum ar t effs (Suc m))"
  unfolding roulettePick_def runningSum_def
  using rouletteScan_None_iff [of ar r t effs 0 0] by auto



lemma binade_numeral:
  "binade (numeral k) m e =
     (if 2 ^ 53 \<le> m then binade (pred_numeral k) (m / 2) (e + 1)
      else if m < 2 ^ 52 then binade (pred_numeral k) (m * 2) (e - 1)
      else e)"
  by (simp add: numeral_eq_Suc)

lemmas double_eval = double_def binade_numeral scaleBy_def roundHalfEven_def Let_def

lemma rounded_ieee: "rounded ieee = double"
  and mathPow_ieee: "mathPow ieee x 2 = double (x * x)"
  by (simp_all add: ieee_def)








text \<open>
  An even \<open>n\<close> does not make the batch full either.  With the priorities 3, 7 and 1
  the rounded running sum of the quotients ends at \<open>1 - 1 / 2 ^ 52\<close>, so a draw of that
  value selects nothing; and with priorities that are all 0 the quotients are NaN and
  no draw selects anything.
\<close>

lemma ieee_priorities:
  "effectivePriorities ieee buffer371
     = [6004799503160661 / 2 ^ 54, 875699927544263 / 2 ^ 48, 1]"
  apply (simp add: effectivePriorities_def buffer371_def tr_def upt_rec rounded_ieee mathPow_ieee)
  apply (simp add: double_eval)
  done

lemma ieee_total:
  "totalOf ieee (effectivePriorities ieee buffer371) = 2501999792983609 / 2 ^ 49"
  unfolding ieee_priorities
  apply (simp add: totalOf_def)
  apply (simp add: rounded_ieee double_eval)
  done

lemma ieee_scan:
  "rouletteScan ieee lastDraw (2501999792983609 / 2 ^ 49)
     (effectivePriorities ieee buffer371) 0 0 = None"
  unfolding ieee_priorities
  by (simp add: rounded_ieee double_eval lastDraw_def)

lemma ieee_pick:
  "roulettePick ieee (effectivePriorities ieee buffer371)
     (totalOf ieee (effectivePriorities ieee buffer371)) lastDraw = None"
  unfolding ieee_total roulettePick_def using ieee_scan by simp

lemma rounding_leaves_batch_short:
  "unitTape lastTape
   \<and> length (fst (sampleEnhancedBatch ieee buffer371 2 lastTape)) = 1"
proof -
  have "2 \<le> length buffer371" by (simp add: buffer371_def)
  from sample_length [OF this, of ieee lastTape]
  have "length (fst (sampleEnhancedBatch ieee buffer371 2 lastTape)) = 1"
    by (simp add: lastTape_def ieee_pick)
  moreover have "unitTape lastTape"
    by (simp add: unitTape_def lastTape_def lastDraw_def)
  ultimately show ?thesis by simp
qed

lemma zero_priorities:
  "effectivePriorities ieee [tr 0, tr 0] = [0, 0]"
  apply (simp add: effectivePriorities_def tr_def upt_rec rounded_ieee mathPow_ieee)
  apply (simp add: double_def)
  done

lemma zero_total:
  "totalOf ieee (effectivePriorities ieee [tr 0, tr 0]) = 0"
  unfolding zero_priorities
  apply (simp add: totalOf_def)
  apply (simp add: rounded_ieee double_def)
  done

lemma zero_priorities_leave_batch_short:
  "length (fst (sampleEnhancedBatch ieee [tr 0, tr 0] 2 zeroTape)) = 1"
proof -
  have p: "roulettePick ieee (effectivePriorities ieee [tr 0, tr 0])
     (totalOf ieee (effectivePriorities ieee [tr 0, tr 0])) r = None" for r
    unfolding zero_total roulettePick_def by (simp add: zero_priorities)
  have "(2::nat) \<le> length [tr 0, tr 0]" by simp
  from sample_length [OF this, of ieee zeroTape] show ?thesis
    by (simp add: p)
qed

section \<open>The checkpoint round trip\<close>

lemma defineProperty_fresh:
  "fst m \<notin> fst ` set ps \<Longrightarrow> defineProperty ps m = ps @ [m]"
  by (induction ps) auto

lemma foldl_defineProperty:
  "distinct (map fst (acc @ ms)) \<Longrightarrow> foldl defineProperty acc ms = acc @ ms"
proof (induction ms arbitrary: acc)
  case Nil
  then show ?case by simp
next
  case (Cons m ms)
  have "fst m \<notin> fst ` set acc" using Cons.prems by auto
  then have "defineProperty acc m = acc @ [m]" by (rule defineProperty_fresh)
  moreover have "distinct (map fst ((acc @ [m]) @ ms))" using Cons.prems by simp
  ultimately show ?case using Cons.IH [of "acc @ [m]"] by simp
qed

lemma round_trip_value:
  "jsonSafe v \<Longrightarrow> \<exists>j. JSON_stringify v = Some j \<and> parseValue j = v"
proof (induction v)
  case (JsNumber n)
  then show ?case by (cases n) (simp_all add: numberText_def)
next
  case (JsArray vs)
  have "\<forall>v \<in> set vs. \<exists>j. JSON_stringify v = Some j \<and> parseValue j = v"
    using JsArray by (auto simp: list_all_iff)
  then have "map parseValue (map elementText (map JSON_stringify vs)) = vs"
    by (induction vs) (auto simp: elementText_def)
  then show ?case by simp
next
  case (JsObject ps)
  have d: "distinct (map fst ps)" using JsObject.prems by simp
  have each: "\<forall>p \<in> set ps. \<exists>j. JSON_stringify (snd p) = Some j \<and> parseValue j = snd p"
  proof
    fix p assume p: "p \<in> set ps"
    then have "jsonSafe (snd p)" using JsObject.prems by (auto simp: list_all_iff)
    moreover have "snd p \<in> Basic_BNFs.snds p" by (cases p) simp
    ultimately show "\<exists>j. JSON_stringify (snd p) = Some j \<and> parseValue j = snd p"
      using JsObject.IH p by blast
  qed
  then have "map (map_prod id parseValue)
      (List.map_filter memberText (map (map_prod id JSON_stringify) ps)) = ps"
    by (induction ps) (auto simp: List.map_filter_simps memberText_def)
  then show ?case using d by (simp add: foldl_defineProperty [of "[]", simplified])
qed simp_all


lemma save_then_load:
  assumes "checkpointPath \<notin> unwritable fsys" "checkpointPath \<notin> unreadable fsys"
    and "JSON_stringify v = Some j"
  shows "loadTrainingState checkpointPath (saveTrainingState v checkpointPath fsys) = parseValue j"
  using assms
  by (simp add: saveTrainingState_def writeFileSync_def loadTrainingState_def existsSync_def
      readFileSync_def JSON_parse_def)

lemma save_undefined:
  "saveTrainingState JsUndefined checkpointPath fsys = fsys"
  by (simp add: saveTrainingState_def writeFileSync_def)

lemma save_unwritable:
  "checkpointPath \<in> unwritable fsys \<Longrightarrow> saveTrainingState v checkpointPath fsys = fsys"
  by (simp add: saveTrainingState_def writeFileSync_def split: option.splits)

lemma stateToSave_text:
  assumes "JSON_stringify episodeV = Some j1" "JSON_stringify epsilonV = Some j2"
    "JSON_stringify replayBufferV = Some j3" "JSON_stringify baseLearningRateV = Some j6"
  shows "\<exists>j. JSON_stringify (stateToSave episodeV epsilonV replayBufferV episodeLossesV
                  episodeMaxQsV baseLearningRateV) = Some j
    \<and> getProperty ''episode'' (parseValue j) = Some (parseValue j1)
    \<and> getProperty ''epsilon'' (parseValue j) = Some (parseValue j2)
    \<and> getProperty ''replayBuffer'' (parseValue j) = Some (parseValue j3)
    \<and> getProperty ''baseLearningRate'' (parseValue j) = Some (parseValue j6)"
  using assms
  by (cases "JSON_stringify episodeLossesV"; cases "JSON_stringify episodeMaxQsV")
     (simp_all add: stateToSave_def List.map_filter_simps memberText_def getProperty_def)


lemma parseValue_defined: "parseValue j \<noteq> JsUndefined"
  by (cases j) simp_all

lemma load_defined: "loadTrainingState checkpointPath fsys \<noteq> JsUndefined"
  by (simp add: loadTrainingState_def JSON_parse_def parseValue_defined
      split: sum.splits fileData.splits)

lemma stringify_undefined: "JSON_stringify v = None \<longleftrightarrow> v = JsUndefined"
  by (cases v) simp_all

lemma defineProperty_keys:
  "set (map fst (defineProperty ps m)) = insert (fst m) (set (map fst ps))"
  by (induction ps) auto

lemma defineProperty_distinct:
  "distinct (map fst ps) \<Longrightarrow> distinct (map fst (defineProperty ps m))"
proof (induction ps)
  case Nil
  then show ?case by simp
next
  case (Cons p ps)
  show ?case
  proof (cases "fst p = fst m")
    case True
    have "fst p \<notin> set (map fst ps)" "distinct (map fst ps)" using Cons.prems by simp_all
    then show ?thesis using True by simp
  next
    case False
    have "fst p \<notin> set (map fst (defineProperty ps m))"
      using Cons.prems False unfolding defineProperty_keys by simp
    moreover have "distinct (map fst (defineProperty ps m))"
      using Cons by simp
    ultimately show ?thesis using False by simp
  qed
qed

lemma defineProperty_values:
  "snd ` set (defineProperty ps m) \<subseteq> insert (snd m) (snd ` set ps)"
  by (induction ps) auto

lemma foldl_defineProperty_safe:
  "distinct (map fst acc) \<Longrightarrow>
   distinct (map fst (foldl defineProperty acc ms))
   \<and> snd ` set (foldl defineProperty acc ms) \<subseteq> snd ` set acc \<union> snd ` set ms"
proof (induction ms arbitrary: acc)
  case Nil
  then show ?case by simp
next
  case (Cons m ms)
  have d: "distinct (map fst (defineProperty acc m))"
    using Cons.prems by (rule defineProperty_distinct)
  from Cons.IH [OF d]
  have 1: "distinct (map fst (foldl defineProperty (defineProperty acc m) ms))"
    and 2: "snd ` set (foldl defineProperty (defineProperty acc m) ms)
             \<subseteq> snd ` set (defineProperty acc m) \<union> snd ` set ms"
    by simp_all
  have 3: "snd ` set (defineProperty acc m) \<subseteq> insert (snd m) (snd ` set acc)"
    by (rule defineProperty_values)
  have "snd ` set (foldl defineProperty (defineProperty acc m) ms)
          \<subseteq> snd ` set acc \<union> snd ` set (m # ms)"
    using 2 3 by (simp only: set_simps image_insert) blast
  with 1 show ?case by simp
qed

lemma parsed_text_safe:
  "JSON_stringify v = Some j \<Longrightarrow> jsonSafe (parseValue j)"
proof (induction v arbitrary: j)
  case (JsNumber n)
  then show ?case by (cases n) (auto simp: numberText_def)
next
  case (JsArray vs)
  have "\<forall>x \<in> set vs. jsonSafe (parseValue (elementText (JSON_stringify x)))"
  proof
    fix x assume x: "x \<in> set vs"
    show "jsonSafe (parseValue (elementText (JSON_stringify x)))"
    proof (cases "JSON_stringify x")
      case None
      then show ?thesis by (simp add: elementText_def)
    next
      case (Some jx)
      with JsArray.IH [OF x Some] show ?thesis by (simp add: elementText_def)
    qed
  qed
  then have "list_all (\<lambda>b. b) (map jsonSafe (map parseValue (map elementText (map JSON_stringify vs))))"
    by (simp add: list_all_iff)
  with JsArray.prems show ?case by auto
next
  case (JsObject ps)
  let ?ms = "map (map_prod id parseValue)
      (List.map_filter memberText (map (map_prod id JSON_stringify) ps))"
  have vals: "\<forall>x \<in> snd ` set ?ms. jsonSafe x"
  proof
    fix x assume "x \<in> snd ` set ?ms"
    then obtain k jx where m: "(k, jx) \<in> set (List.map_filter memberText (map (map_prod id JSON_stringify) ps))"
      and x: "x = parseValue jx"
      by auto
    from m obtain p where p: "p \<in> set ps" and t: "memberText (map_prod id JSON_stringify p) = Some (k, jx)"
      by (auto simp: List.map_filter_def)
    from t have "JSON_stringify (snd p) = Some jx"
      by (cases p) (auto simp: memberText_def split: option.splits)
    moreover have "snd p \<in> Basic_BNFs.snds p" by (cases p) simp
    ultimately show "jsonSafe x" using JsObject.IH p x by blast
  qed
  have both: "distinct (map fst (foldl defineProperty [] ?ms))
      \<and> snd ` set (foldl defineProperty [] ?ms) \<subseteq> snd ` set [] \<union> snd ` set ?ms"
    using foldl_defineProperty_safe [of "[]" ?ms] by simp
  then have sub: "snd ` set (foldl defineProperty [] ?ms) \<subseteq> snd ` set ?ms" by simp
  have "\<forall>x \<in> snd ` set (foldl defineProperty [] ?ms). jsonSafe x"
    using vals sub by blast
  with both have "distinct (map fst (foldl defineProperty [] ?ms))"
    and "\<forall>x \<in> snd ` set (foldl defineProperty [] ?ms). jsonSafe x"
    by simp_all
  then have "jsonSafe (JsObject (foldl defineProperty [] ?ms))"
    by (auto simp: list_all_iff)
  with JsObject.prems show ?case by auto
qed auto

lemma round_trip_iff:
  assumes "checkpointPath \<notin> unwritable fsys" "checkpointPath \<notin> unreadable fsys"
  shows "(loadTrainingState checkpointPath (saveTrainingState v checkpointPath fsys) = v)
           = jsonSafe v"
proof (cases "JSON_stringify v")
  case None
  then have v: "v = JsUndefined" by (simp add: stringify_undefined)
  show ?thesis unfolding v save_undefined using load_defined [of checkpointPath fsys] by simp
next
  case (Some j)
  have l: "loadTrainingState checkpointPath (saveTrainingState v checkpointPath fsys) = parseValue j"
    by (rule save_then_load [OF assms Some])
  show ?thesis
  proof
    assume "loadTrainingState checkpointPath (saveTrainingState v checkpointPath fsys) = v"
    then have "parseValue j = v" using l by simp
    then show "jsonSafe v" using parsed_text_safe [OF Some] by simp
  next
    assume "jsonSafe v"
    from round_trip_value [OF this] Some have "parseValue j = v" by auto
    then show "loadTrainingState checkpointPath (saveTrainingState v checkpointPath fsys) = v"
      using l by simp
  qed
qed

text \<open>
  C8 (amended).  When the checkpoint file can be written and read:
  saving a state and loading it at once returns the very same state if and only if the
  state is made of values that a JSON text carries (no \<open>undefined\<close>, every number
  finite and not \<open>-0\<close>); and for the state that \<open>train\<close> saves, the loaded \<open>episode\<close>,
  \<open>epsilon\<close>, \<open>baseLearningRate\<close> and \<open>replayBuffer\<close> are the saved ones whenever these
  four are made of such values, whatever the two histories hold.
\<close>

theorem checkpoint_round_trip:
  "checkpointPath \<notin> unwritable fsys \<Longrightarrow> checkpointPath \<notin> unreadable fsys \<Longrightarrow>
   ((loadTrainingState checkpointPath (saveTrainingState trainingState checkpointPath fsys)
       = trainingState) = jsonSafe trainingState)
   \<and> (jsonSafe episodeV \<and> jsonSafe epsilonV \<and> (\<forall>t \<in> set buffer. jsonSafe t)
        \<and> jsonSafe baseLearningRateV \<longrightarrow>
       getProperty ''episode'' (loadTrainingState checkpointPath
          (saveTrainingState (stateToSave episodeV epsilonV (JsArray buffer) episodeLossesV
             episodeMaxQsV baseLearningRateV) checkpointPath fsys)) = Some episodeV
       \<and> getProperty ''epsilon'' (loadTrainingState checkpointPath
          (saveTrainingState (stateToSave episodeV epsilonV (JsArray buffer) episodeLossesV
             episodeMaxQsV baseLearningRateV) checkpointPath fsys)) = Some epsilonV
       \<and> getProperty ''baseLearningRate'' (loadTrainingState checkpointPath
          (saveTrainingState (stateToSave episodeV epsilonV (JsArray buffer) episodeLossesV
             episodeMaxQsV baseLearningRateV) checkpointPath fsys)) = Some baseLearningRateV
       \<and> getProperty ''replayBuffer'' (loadTrainingState checkpointPath
          (saveTrainingState (stateToSave episodeV epsilonV (JsArray buffer) episodeLossesV
             episodeMaxQsV baseLearningRateV) checkpointPath fsys)) = Some (JsArray buffer))"
proof (intro conjI impI)
  assume w: "checkpointPath \<notin> unwritable fsys" and r: "checkpointPath \<notin> unreadable fsys"
  show "(loadTrainingState checkpointPath (saveTrainingState trainingState checkpointPath fsys)
       = trainingState) = jsonSafe trainingState"
    by (rule round_trip_iff [OF w r])
  let ?st = "stateToSave episodeV epsilonV (JsArray buffer) episodeLossesV
             episodeMaxQsV baseLearningRateV"
  assume s: "jsonSafe episodeV \<and> jsonSafe epsilonV \<and> (\<forall>t \<in> set buffer. jsonSafe t)
        \<and> jsonSafe baseLearningRateV"
  then have sb: "jsonSafe (JsArray buffer)" by (simp add: list_all_iff)
  from s round_trip_value [of episodeV] obtain j1 where
    j1: "JSON_stringify episodeV = Some j1" "parseValue j1 = episodeV" by blast
  from s round_trip_value [of epsilonV] obtain j2 where
    j2: "JSON_stringify epsilonV = Some j2" "parseValue j2 = epsilonV" by blast
  from round_trip_value [OF sb] obtain j3 where
    j3: "JSON_stringify (JsArray buffer) = Some j3" "parseValue j3 = JsArray buffer" by blast
  from s round_trip_value [of baseLearningRateV] obtain j6 where
    j6: "JSON_stringify baseLearningRateV = Some j6" "parseValue j6 = baseLearningRateV" by blast
  from stateToSave_text [OF j1(1) j2(1) j3(1) j6(1), of episodeLossesV episodeMaxQsV]
  obtain j where j: "JSON_stringify ?st = Some j"
    and g: "getProperty ''episode'' (parseValue j) = Some (parseValue j1)"
      "getProperty ''epsilon'' (parseValue j) = Some (parseValue j2)"
      "getProperty ''replayBuffer'' (parseValue j) = Some (parseValue j3)"
      "getProperty ''baseLearningRate'' (parseValue j) = Some (parseValue j6)"
    by blast
  have l: "loadTrainingState checkpointPath (saveTrainingState ?st checkpointPath fsys) = parseValue j"
    by (rule save_then_load [OF w r j])
  show "getProperty ''episode'' (loadTrainingState checkpointPath
          (saveTrainingState ?st checkpointPath fsys)) = Some episodeV"
    unfolding l g j1 ..
  show "getProperty ''epsilon'' (loadTrainingState checkpointPath
          (saveTrainingState ?st checkpointPath fsys)) = Some epsilonV"
    unfolding l g j2 ..
  show "getProperty ''baseLearningRate'' (loadTrainingState checkpointPath
          (saveTrainingState ?st checkpointPath fsys)) = Some baseLearningRateV"
    unfolding l g j6 ..
  show "getProperty ''replayBuffer'' (loadTrainingState checkpointPath
          (saveTrainingState ?st checkpointPath fsys)) = Some (JsArray buffer)"
    unfolding l g j3 ..
qed

lemma cellFeature_safe: "jsonSafe cellFeature"
  by (simp add: cellFeature_def featureObject_def)

lemma firstTransition_safe: "jsonSafe p \<Longrightarrow> jsonSafe (firstTransition p)"
  by (simp add: firstTransition_def transitionObject_def cellFeature_safe)

theorem checkpoint_round_trip_witness:
  "''checkpoint.json'' \<notin> unwritable emptyDisk
   \<and> ''checkpoint.json'' \<notin> unreadable emptyDisk
   \<and> jsonSafe (firstTransition (JsNumber (Finite 0.95)))
   \<and> \<not> jsonSafe (firstState (JsNumber (Finite 0.95)))
   \<and> loadTrainingState ''checkpoint.json''
        (saveTrainingState (firstState (JsNumber (Finite 0.95))) ''checkpoint.json'' emptyDisk)
       \<noteq> firstState (JsNumber (Finite 0.95))
   \<and> getProperty ''episode'' (loadTrainingState ''checkpoint.json''
        (saveTrainingState (firstState (JsNumber (Finite 0.95))) ''checkpoint.json'' emptyDisk))
       = Some (JsNumber (Finite 1))
   \<and> getProperty ''replayBuffer'' (loadTrainingState ''checkpoint.json''
        (saveTrainingState (firstState (JsNumber (Finite 0.95))) ''checkpoint.json'' emptyDisk))
       = Some (JsArray [firstTransition (JsNumber (Finite 0.95))])"
proof -
  have w: "''checkpoint.json'' \<notin> unwritable emptyDisk" "''checkpoint.json'' \<notin> unreadable emptyDisk"
    by (simp_all add: emptyDisk_def)
  have t: "jsonSafe (firstTransition (JsNumber (Finite 0.95)))"
    by (simp add: firstTransition_safe)
  have n: "\<not> jsonSafe (firstState (JsNumber (Finite 0.95)))"
    by (simp add: firstState_def stateToSave_def)
  note c = checkpoint_round_trip [OF w, of "firstState (JsNumber (Finite 0.95))"
      "JsNumber (Finite 1)" "JsNumber (Finite 0.999)" "[firstTransition (JsNumber (Finite 0.95))]"
      "JsNumber (Finite 0.001)" "JsArray [JsNumber NotANumber]" "JsArray [JsNumber (Finite 1.5)]"]
  from c have "loadTrainingState ''checkpoint.json''
        (saveTrainingState (firstState (JsNumber (Finite 0.95))) ''checkpoint.json'' emptyDisk)
       \<noteq> firstState (JsNumber (Finite 0.95))"
    using n by blast
  moreover from c t have "getProperty ''episode'' (loadTrainingState ''checkpoint.json''
        (saveTrainingState (firstState (JsNumber (Finite 0.95))) ''checkpoint.json'' emptyDisk))
       = Some (JsNumber (Finite 1))"
    "getProperty ''replayBuffer'' (loadTrainingState ''checkpoint.json''
        (saveTrainingState (firstState (JsNumber (Finite 0.95))) ''checkpoint.json'' emptyDisk))
       = Some (JsArray [firstTransition (JsNumber (Finite 0.95))])"
    by (simp_all add: firstState_def)
  ultimately show ?thesis using w t n by blast
qed

text \<open>
  The claim at a state whose one transition has the priority \<open>Infinity\<close> (a priority is
  overwritten with the TD-error that the approximator returns, index.js 681-685): the
  checkpoint is written and read, and the priority of the loaded transition is \<open>null\<close>.
\<close>

theorem infinite_priority_not_restored:
  "getProperty ''replayBuffer'' (firstState (JsNumber PlusInfinity))
     = Some (JsArray [firstTransition (JsNumber PlusInfinity)])
   \<and> getProperty ''replayBuffer'' (loadTrainingState ''checkpoint.json''
        (saveTrainingState (firstState (JsNumber PlusInfinity)) ''checkpoint.json'' emptyDisk))
       = Some (JsArray [firstTransition JsNull])
   \<and> firstTransition JsNull \<noteq> firstTransition (JsNumber PlusInfinity)"
  by (simp add: firstState_def stateToSave_def firstTransition_def transitionObject_def
      cellFeature_def featureObject_def getProperty_def saveTrainingState_def writeFileSync_def
      loadTrainingState_def existsSync_def readFileSync_def JSON_parse_def emptyDisk_def
      List.map_filter_simps memberText_def elementText_def numberText_def)

end
